theory Spec2Isabelle
  imports Complex_Main
begin

section \<open>Beside the Point: the simulation and the circle geometry of solution\_nov24\<close>

text \<open>
  The notebook computes with NumPy float64 values. They are read in two ways here.

  In the exact reading a finite float is the real number it stands for and every operation
  is exact: this is the reading of the algebraic statements (the range and the symmetry of
  the valid area, the zero-radius guard, the exclusion test, the sampler). The values that
  are not numbers are kept apart, since NumPy's division and \<open>arccos\<close> do not raise but
  deliver them: a division by zero gives \<open>inf\<close>, \<open>-inf\<close> or \<open>nan\<close>, an
  \<open>arccos\<close> outside \<open>[-1, 1]\<close> gives \<open>nan\<close>.

  In the rounded reading every operation rounds or overflows, and Python's \<open>x**2\<close> raises
  \<open>OverflowError\<close> when the square is too large: this is the reading of the statements about
  what rounding can do (the clip in front of \<open>arccos\<close>, the sign of the intersection area,
  the success test on the computed \<open>a\<close>). The exact reading is the rounded one at an
  arithmetic without error.
\<close>

datatype npfloat = Finite real | PInf | NInf | NaN

type_synonym point = "real \<times> real"

subsection \<open>NumPy arithmetic on float64\<close>

text \<open>\<open>a / b\<close> on two finite values (the zero of a denominator is \<open>+0.0\<close> at every
  division of the notebook: a square root, a difference \<open>x - x\<close>, a count).\<close>

definition np_divide :: "real \<Rightarrow> real \<Rightarrow> npfloat" where
  "np_divide a b =
     (if b = 0 then (if a = 0 then NaN else if 0 < a then PInf else NInf)
      else Finite (a / b))"

text \<open>\<open>np.clip(a, lo, hi)\<close> is \<open>minimum(hi, maximum(a, lo))\<close>; a \<open>nan\<close> stays.\<close>

fun np_clip :: "npfloat \<Rightarrow> real \<Rightarrow> real \<Rightarrow> npfloat" where
  "np_clip (Finite v) lo hi = Finite (min hi (max v lo))"
| "np_clip PInf lo hi = Finite hi"
| "np_clip NInf lo hi = Finite (min hi lo)"
| "np_clip NaN lo hi = NaN"

fun np_arccos :: "npfloat \<Rightarrow> npfloat" where
  "np_arccos (Finite v) = (if - 1 \<le> v \<and> v \<le> 1 then Finite (arccos v) else NaN)"
| "np_arccos PInf = NaN"
| "np_arccos NInf = NaN"
| "np_arccos NaN = NaN"

fun np_sin :: "npfloat \<Rightarrow> npfloat" where
  "np_sin (Finite v) = Finite (sin v)"
| "np_sin PInf = NaN"
| "np_sin NInf = NaN"
| "np_sin NaN = NaN"

fun np_neg :: "npfloat \<Rightarrow> npfloat" where
  "np_neg (Finite v) = Finite (- v)"
| "np_neg PInf = NInf"
| "np_neg NInf = PInf"
| "np_neg NaN = NaN"

fun np_add :: "npfloat \<Rightarrow> npfloat \<Rightarrow> npfloat" where
  "np_add (Finite a) (Finite b) = Finite (a + b)"
| "np_add NaN b = NaN"
| "np_add a NaN = NaN"
| "np_add PInf NInf = NaN"
| "np_add NInf PInf = NaN"
| "np_add PInf b = PInf"
| "np_add a PInf = PInf"
| "np_add NInf b = NInf"
| "np_add a NInf = NInf"

definition np_sub :: "npfloat \<Rightarrow> npfloat \<Rightarrow> npfloat" where
  "np_sub a b = np_add a (np_neg b)"

text \<open>The sign of an infinite product; \<open>inf * 0\<close> is \<open>nan\<close>.\<close>

definition signed_inf :: "real \<Rightarrow> npfloat" where
  "signed_inf s = (if s = 0 then NaN else if 0 < s then PInf else NInf)"

fun np_mul :: "npfloat \<Rightarrow> npfloat \<Rightarrow> npfloat" where
  "np_mul (Finite a) (Finite b) = Finite (a * b)"
| "np_mul NaN b = NaN"
| "np_mul a NaN = NaN"
| "np_mul (Finite a) PInf = signed_inf a"
| "np_mul (Finite a) NInf = signed_inf (- a)"
| "np_mul PInf (Finite b) = signed_inf b"
| "np_mul NInf (Finite b) = signed_inf (- b)"
| "np_mul PInf PInf = PInf"
| "np_mul NInf NInf = PInf"
| "np_mul PInf NInf = NInf"
| "np_mul NInf PInf = NInf"

text \<open>The comparisons \<open>a >= c\<close> and \<open>a <= c\<close> with a finite \<open>c\<close>: false on \<open>nan\<close>.\<close>

fun np_ge :: "npfloat \<Rightarrow> real \<Rightarrow> bool" where
  "np_ge (Finite v) c = (c \<le> v)"
| "np_ge PInf c = True"
| "np_ge NInf c = False"
| "np_ge NaN c = False"

fun np_le :: "npfloat \<Rightarrow> real \<Rightarrow> bool" where
  "np_le (Finite v) c = (v \<le> c)"
| "np_le PInf c = False"
| "np_le NInf c = True"
| "np_le NaN c = False"

subsection \<open>The circle geometry (notebook cell 4)\<close>

definition r1 :: "real \<Rightarrow> real \<Rightarrow> real" where
  "r1 x y = sqrt (x\<^sup>2 + y\<^sup>2)"

definition r2 :: "real \<Rightarrow> real \<Rightarrow> real" where
  "r2 x y = sqrt ((1 - x)\<^sup>2 + y\<^sup>2)"

text \<open>The value handed to \<open>np.arccos\<close> in \<open>c_ad\<close> and \<open>c_bd\<close>, on the path behind the
  zero-radius test: the quotient, then the clip.\<close>

definition c_ad_arg :: "real \<Rightarrow> real \<Rightarrow> npfloat" where
  "c_ad_arg x y =
     (let rr1 = r1 x y; rr2 = r2 x y;
          arg = np_divide (rr1\<^sup>2 + 1 - rr2\<^sup>2) (2 * rr1)
      in np_clip arg (- 1) 1)"

definition c_bd_arg :: "real \<Rightarrow> real \<Rightarrow> npfloat" where
  "c_bd_arg x y =
     (let rr1 = r1 x y; rr2 = r2 x y;
          arg = np_divide (rr2\<^sup>2 + 1 - rr1\<^sup>2) (2 * rr2)
      in np_clip arg (- 1) 1)"

definition c_ad :: "real \<Rightarrow> real \<Rightarrow> npfloat" where
  "c_ad x y =
     (let rr1 = r1 x y
      in if rr1 = 0 then Finite 0
         else np_mul (Finite 2) (np_arccos (c_ad_arg x y)))"

definition c_bd :: "real \<Rightarrow> real \<Rightarrow> npfloat" where
  "c_bd x y =
     (let rr2 = r2 x y
      in if rr2 = 0 then Finite 0
         else np_mul (Finite 2) (np_arccos (c_bd_arg x y)))"

definition intersection_area :: "real \<Rightarrow> real \<Rightarrow> npfloat" where
  "intersection_area x y =
     (let rr1 = r1 x y; rr2 = r2 x y
      in if rr1 = 0 \<or> rr2 = 0 then Finite 0
         else
           let cad = c_ad x y; cbd = c_bd x y
           in np_mul (Finite (1 / 2))
                (np_add (np_mul (Finite (rr1\<^sup>2)) (np_sub cad (np_sin cad)))
                        (np_mul (Finite (rr2\<^sup>2)) (np_sub cbd (np_sin cbd)))))"

definition A :: "real \<Rightarrow> real \<Rightarrow> npfloat" where
  "A x y =
     np_sub (Finite (pi * (r1 x y)\<^sup>2 / 4 + pi * (r2 x y)\<^sup>2 / 4)) (intersection_area x y)"

text \<open>The canonical region of the blue point: the bottom edge is the nearest one.\<close>

definition in_triangle :: "real \<Rightarrow> real \<Rightarrow> bool" where
  "in_triangle x y = (0 \<le> y \<and> y \<le> 1 / 2 \<and> y \<le> x \<and> y \<le> 1 - x)"

subsection \<open>The Monte Carlo simulation (notebook cell 2)\<close>

text \<open>
  The random source is made explicit: \<open>src\<close> is the stream of rows that successive
  calls of \<open>np.random.rand(n, 2)\<close> deliver, and a position in the stream is the state
  of the generator. A call takes the next \<open>n\<close> rows.
\<close>

type_synonym rng = "nat \<Rightarrow> point"

definition rand :: "nat \<Rightarrow> rng \<Rightarrow> nat \<Rightarrow> point list \<times> nat" where
  "rand n src pos = (map src [pos..<pos + n], pos + n)"

text \<open>The acceptance mask of the rejection sampler: \<open>y \<le> 0.5\<close>, \<open>y \<le> x\<close>,
  \<open>y \<le> 1 - x\<close>.\<close>

definition valid :: "point \<Rightarrow> bool" where
  "valid p = (snd p \<le> 1 / 2 \<and> snd p \<le> fst p \<and> snd p \<le> 1 - fst p)"

text \<open>The \<open>while len(blue) < num_samples\<close> loop. It need not end, so it is a partial
  function: \<open>None\<close> is the run that never leaves the loop. Inside the loop
  \<open>num_samples\<close> is positive, so the batch has \<open>nat num_samples\<close> rows.\<close>

partial_function (option) blue_loop :: "int \<Rightarrow> rng \<Rightarrow> point list \<Rightarrow> nat \<Rightarrow> (point list \<times> nat) option" where
  "blue_loop num_samples src blue pos =
     (if int (length blue) < num_samples
      then blue_loop num_samples src
             (blue @ filter valid (fst (rand (nat num_samples) src pos)))
             (snd (rand (nat num_samples) src pos))
      else Some (blue, pos))"

text \<open>Python's slice \<open>xs[:n]\<close>: a negative \<open>n\<close> counts from the end.\<close>

definition slice_to :: "'a list \<Rightarrow> int \<Rightarrow> 'a list" where
  "slice_to xs n = (if n < 0 then take (length xs - nat (- n)) xs else take (nat n) xs)"

text \<open>The blue-point sampler: the loop, then \<open>blue[:num_samples]\<close>. The result carries
  the position the generator is left at.\<close>

definition blue_points :: "int \<Rightarrow> rng \<Rightarrow> (point list \<times> nat) option" where
  "blue_points num_samples src =
     (case blue_loop num_samples src [] 0 of
        None \<Rightarrow> None
      | Some (blue, pos) \<Rightarrow> Some (slice_to blue num_samples, pos))"

text \<open>\<open>np.isclose(a, b, rtol, atol)\<close> on finite values is
  \<open>|a - b| <= atol + rtol * |b|\<close>; the notebook passes \<open>atol=1e-8\<close> and leaves
  \<open>rtol\<close> at NumPy's default \<open>1e-5\<close>.\<close>

definition np_isclose :: "real \<Rightarrow> real \<Rightarrow> real \<Rightarrow> real \<Rightarrow> bool" where
  "np_isclose a b rtol atol = (\<bar>a - b\<bar> \<le> atol + rtol * \<bar>b\<bar>)"

definition default_rtol :: real where
  "default_rtol = 1 / 10 ^ 5"

text \<open>Whether the pair of a blue and a red point is kept: one entry of
  \<open>mask = ~np.isclose(red[:, 0], blue[:, 0], atol=1e-8)\<close>.\<close>

definition retained :: "point \<Rightarrow> point \<Rightarrow> bool" where
  "retained b r = (\<not> np_isclose (fst r) (fst b) default_rtol (1 / 10 ^ 8))"

definition mask_of :: "point list \<Rightarrow> point list \<Rightarrow> bool list" where
  "mask_of blue red = map2 (\<lambda>r b. retained b r) red blue"

text \<open>Boolean indexing \<open>xs[mask]\<close>.\<close>

definition select :: "bool list \<Rightarrow> 'a list \<Rightarrow> 'a list" where
  "select m xs = map snd (filter fst (zip m xs))"

text \<open>One entry of \<open>a_vals\<close>: the quotient for a blue point \<open>b\<close> and a red point
  \<open>r\<close>.\<close>

definition a_val :: "point \<Rightarrow> point \<Rightarrow> npfloat" where
  "a_val b r =
     np_divide ((fst r)\<^sup>2 - (fst b)\<^sup>2 + (snd r)\<^sup>2 - (snd b)\<^sup>2) (2 * (fst r - fst b))"

definition a_vals :: "point list \<Rightarrow> point list \<Rightarrow> npfloat list" where
  "a_vals blue red =
     (let m = mask_of blue red
      in map2 (\<lambda>r b. a_val b r) (select m red) (select m blue))"

definition successes :: "point list \<Rightarrow> point list \<Rightarrow> nat" where
  "successes blue red = length (filter (\<lambda>a. np_ge a 0 \<and> np_le a 1) (a_vals blue red))"

text \<open>\<open>successes / np.sum(mask)\<close>: NumPy's true division of two integer scalars.\<close>

definition probability :: "point list \<Rightarrow> point list \<Rightarrow> npfloat" where
  "probability blue red =
     np_divide (real (successes blue red)) (real (length (filter id (mask_of blue red))))"

datatype py_error = IndexError | ValueError

text \<open>
  The whole function. \<open>None\<close>: the sampling loop never ends. \<open>Some (Inl e)\<close>: the
  exception \<open>e\<close> is raised. \<open>Some (Inr v)\<close>: \<open>v\<close> is returned.
  \<open>np.random.rand\<close> refuses a negative row count with a \<open>ValueError\<close>;
  \<open>np.array\<close> of the empty list is one-dimensional, so \<open>blue[:, 0]\<close> raises an
  \<open>IndexError\<close> on it.
\<close>

definition vectorized_simulation :: "int \<Rightarrow> rng \<Rightarrow> (py_error + npfloat) option" where
  "vectorized_simulation num_samples src =
     (case blue_points num_samples src of
        None \<Rightarrow> None
      | Some (blue, pos) \<Rightarrow>
          Some (if num_samples < 0 then Inl ValueError
                else
                  let red = fst (rand (nat num_samples) src pos)
                  in if blue = [] then Inl IndexError
                     else Inr (probability blue red)))"

text \<open>The candidate boundary point of a pair as the problem states it.\<close>

definition a_formula :: "point \<Rightarrow> point \<Rightarrow> real" where
  "a_formula b r =
     ((fst r)\<^sup>2 - (fst b)\<^sup>2 + (snd r)\<^sup>2 - (snd b)\<^sup>2) / (2 * (fst r - fst b))"

text \<open>Two sources used as concrete inputs: one that always delivers the row
  \<open>(0.9, 0.9)\<close>, outside the triangle, and one that always delivers \<open>(0.5, 0.25)\<close>,
  inside it.\<close>

definition stuck_source :: rng where
  "stuck_source i = (9 / 10, 9 / 10)"

definition centre_source :: rng where
  "centre_source i = (1 / 2, 1 / 4)"

subsection \<open>Real-valued readings of the geometry\<close>

text \<open>The chord angles and the lens area as real numbers; the lemmas below show that the
  NumPy computations deliver exactly these, as finite values.\<close>

definition clip1 :: "real \<Rightarrow> real" where
  "clip1 v = min 1 (max v (- 1))"

definition angle_ad :: "real \<Rightarrow> real \<Rightarrow> real" where
  "angle_ad x y = (if r1 x y = 0 then 0 else 2 * arccos (clip1 (x / r1 x y)))"

definition angle_bd :: "real \<Rightarrow> real \<Rightarrow> real" where
  "angle_bd x y = (if r2 x y = 0 then 0 else 2 * arccos (clip1 ((1 - x) / r2 x y)))"

definition lens :: "real \<Rightarrow> real \<Rightarrow> real" where
  "lens x y =
     (if r1 x y = 0 \<or> r2 x y = 0 then 0
      else 1 / 2 * ((r1 x y)\<^sup>2 * (angle_ad x y - sin (angle_ad x y))
                  + (r2 x y)\<^sup>2 * (angle_bd x y - sin (angle_bd x y))))"

subsection \<open>The rounded reading: arithmetic\<close>

text \<open>
  The float64 arithmetic as a parameter. \<open>rnd r\<close> is the float64 result of a basic
  operation (\<open>+\<close>, \<open>-\<close>, \<open>*\<close>, \<open>/\<close>, \<open>sqrt\<close>, a decimal literal) whose exact result is
  \<open>r\<close>: a finite float, or an infinity on overflow. The library functions are parameters of
  their own, since the C library does not promise correct rounding: \<open>lib_pow2 x\<close> is the C
  \<open>pow(x, 2.0)\<close> behind Python's \<open>x**2\<close>, \<open>lib_sin\<close> and \<open>lib_arccos\<close> are the values of
  \<open>np.sin\<close> and of \<open>np.arccos\<close> on \<open>[-1, 1]\<close>.
\<close>

record float_ops =
  rnd :: "real \<Rightarrow> npfloat"
  lib_pow2 :: "real \<Rightarrow> npfloat"
  lib_sin :: "real \<Rightarrow> real"
  lib_arccos :: "real \<Rightarrow> real"

fun fl_add :: "float_ops \<Rightarrow> npfloat \<Rightarrow> npfloat \<Rightarrow> npfloat" where
  "fl_add F (Finite a) (Finite b) = rnd F (a + b)"
| "fl_add F a b = np_add a b"

fun fl_sub :: "float_ops \<Rightarrow> npfloat \<Rightarrow> npfloat \<Rightarrow> npfloat" where
  "fl_sub F (Finite a) (Finite b) = rnd F (a - b)"
| "fl_sub F a b = np_sub a b"

fun fl_mul :: "float_ops \<Rightarrow> npfloat \<Rightarrow> npfloat \<Rightarrow> npfloat" where
  "fl_mul F (Finite a) (Finite b) = rnd F (a * b)"
| "fl_mul F a b = np_mul a b"

fun fl_div :: "float_ops \<Rightarrow> npfloat \<Rightarrow> npfloat \<Rightarrow> npfloat" where
  "fl_div F (Finite a) (Finite b) =
     (if b = 0 then (if a = 0 then NaN else if 0 < a then PInf else NInf)
      else rnd F (a / b))"
| "fl_div F NaN b = NaN"
| "fl_div F a NaN = NaN"
| "fl_div F (Finite a) PInf = Finite 0"
| "fl_div F (Finite a) NInf = Finite 0"
| "fl_div F PInf (Finite b) = (if 0 \<le> b then PInf else NInf)"
| "fl_div F NInf (Finite b) = (if 0 \<le> b then NInf else PInf)"
| "fl_div F a b = NaN"

fun fl_sqrt :: "float_ops \<Rightarrow> npfloat \<Rightarrow> npfloat" where
  "fl_sqrt F (Finite v) = (if v < 0 then NaN else rnd F (sqrt v))"
| "fl_sqrt F PInf = PInf"
| "fl_sqrt F NInf = NaN"
| "fl_sqrt F NaN = NaN"

fun fl_sin :: "float_ops \<Rightarrow> npfloat \<Rightarrow> npfloat" where
  "fl_sin F (Finite v) = Finite (lib_sin F v)"
| "fl_sin F a = NaN"

fun fl_arccos :: "float_ops \<Rightarrow> npfloat \<Rightarrow> npfloat" where
  "fl_arccos F (Finite v) = (if - 1 \<le> v \<and> v \<le> 1 then Finite (lib_arccos F v) else NaN)"
| "fl_arccos F a = NaN"

fun fl_abs :: "npfloat \<Rightarrow> npfloat" where
  "fl_abs (Finite v) = Finite \<bar>v\<bar>"
| "fl_abs PInf = PInf"
| "fl_abs NInf = PInf"
| "fl_abs NaN = NaN"

fun np_less_equal :: "npfloat \<Rightarrow> npfloat \<Rightarrow> bool" where
  "np_less_equal (Finite a) (Finite b) = (a \<le> b)"
| "np_less_equal NaN b = False"
| "np_less_equal a NaN = False"
| "np_less_equal NInf b = True"
| "np_less_equal a PInf = True"
| "np_less_equal a b = False"

datatype float_error = OverflowError

fun py_pow2 :: "float_ops \<Rightarrow> npfloat \<Rightarrow> float_error + npfloat" where
  "py_pow2 F (Finite v) = (case lib_pow2 F v of Finite w \<Rightarrow> Inr (Finite w) | _ \<Rightarrow> Inl OverflowError)"
| "py_pow2 F PInf = Inr PInf"
| "py_pow2 F NInf = Inr PInf"
| "py_pow2 F NaN = Inr NaN"

text \<open>\<open>rr**2\<close> on a NumPy float64 scalar: the same C \<open>pow\<close>, but an overflow is the value
  \<open>inf\<close>, not an exception.\<close>

fun np_pow2 :: "float_ops \<Rightarrow> npfloat \<Rightarrow> npfloat" where
  "np_pow2 F (Finite v) = lib_pow2 F v"
| "np_pow2 F PInf = PInf"
| "np_pow2 F NInf = PInf"
| "np_pow2 F NaN = NaN"

definition r1_fl :: "float_ops \<Rightarrow> real \<Rightarrow> real \<Rightarrow> float_error + npfloat" where
  "r1_fl F x y =
     (case py_pow2 F (Finite x) of
        Inl e \<Rightarrow> Inl e
      | Inr xx \<Rightarrow>
          (case py_pow2 F (Finite y) of
             Inl e \<Rightarrow> Inl e
           | Inr yy \<Rightarrow> Inr (fl_sqrt F (fl_add F xx yy))))"

definition r2_fl :: "float_ops \<Rightarrow> real \<Rightarrow> real \<Rightarrow> float_error + npfloat" where
  "r2_fl F x y =
     (case py_pow2 F (fl_sub F (Finite 1) (Finite x)) of
        Inl e \<Rightarrow> Inl e
      | Inr xx \<Rightarrow>
          (case py_pow2 F (Finite y) of
             Inl e \<Rightarrow> Inl e
           | Inr yy \<Rightarrow> Inr (fl_sqrt F (fl_add F xx yy))))"

text \<open>The quotient of \<open>c_ad\<close> and of \<open>c_bd\<close> as computed from the two radii, and the value
  that \<open>np.clip\<close> makes of it: the argument handed to \<open>np.arccos\<close>.\<close>

definition quot_ad :: "float_ops \<Rightarrow> npfloat \<Rightarrow> npfloat \<Rightarrow> npfloat" where
  "quot_ad F rr1 rr2 =
     fl_div F (fl_sub F (fl_add F (np_pow2 F rr1) (Finite 1)) (np_pow2 F rr2))
              (fl_mul F (Finite 2) rr1)"

definition quot_bd :: "float_ops \<Rightarrow> npfloat \<Rightarrow> npfloat \<Rightarrow> npfloat" where
  "quot_bd F rr1 rr2 =
     fl_div F (fl_sub F (fl_add F (np_pow2 F rr2) (Finite 1)) (np_pow2 F rr1))
              (fl_mul F (Finite 2) rr2)"

definition arg_ad :: "float_ops \<Rightarrow> npfloat \<Rightarrow> npfloat \<Rightarrow> npfloat" where
  "arg_ad F rr1 rr2 = np_clip (quot_ad F rr1 rr2) (- 1) 1"

definition arg_bd :: "float_ops \<Rightarrow> npfloat \<Rightarrow> npfloat \<Rightarrow> npfloat" where
  "arg_bd F rr1 rr2 = np_clip (quot_bd F rr1 rr2) (- 1) 1"

definition c_ad_fl :: "float_ops \<Rightarrow> real \<Rightarrow> real \<Rightarrow> float_error + npfloat" where
  "c_ad_fl F x y =
     (case r1_fl F x y of
        Inl e \<Rightarrow> Inl e
      | Inr rr1 \<Rightarrow>
          (case r2_fl F x y of
             Inl e \<Rightarrow> Inl e
           | Inr rr2 \<Rightarrow>
               Inr (if rr1 = Finite 0 then Finite 0
                    else fl_mul F (Finite 2) (fl_arccos F (arg_ad F rr1 rr2)))))"

definition c_bd_fl :: "float_ops \<Rightarrow> real \<Rightarrow> real \<Rightarrow> float_error + npfloat" where
  "c_bd_fl F x y =
     (case r1_fl F x y of
        Inl e \<Rightarrow> Inl e
      | Inr rr1 \<Rightarrow>
          (case r2_fl F x y of
             Inl e \<Rightarrow> Inl e
           | Inr rr2 \<Rightarrow>
               Inr (if rr2 = Finite 0 then Finite 0
                    else fl_mul F (Finite 2) (fl_arccos F (arg_bd F rr1 rr2)))))"

definition segment_fl :: "float_ops \<Rightarrow> npfloat \<Rightarrow> npfloat \<Rightarrow> npfloat" where
  "segment_fl F rr c = fl_mul F (np_pow2 F rr) (fl_sub F c (fl_sin F c))"

definition intersection_area_fl :: "float_ops \<Rightarrow> real \<Rightarrow> real \<Rightarrow> float_error + npfloat" where
  "intersection_area_fl F x y =
     (case r1_fl F x y of
        Inl e \<Rightarrow> Inl e
      | Inr rr1 \<Rightarrow>
          (case r2_fl F x y of
             Inl e \<Rightarrow> Inl e
           | Inr rr2 \<Rightarrow>
               if rr1 = Finite 0 \<or> rr2 = Finite 0 then Inr (Finite 0)
               else
                 (case c_ad_fl F x y of
                    Inl e \<Rightarrow> Inl e
                  | Inr cad \<Rightarrow>
                      (case c_bd_fl F x y of
                         Inl e \<Rightarrow> Inl e
                       | Inr cbd \<Rightarrow>
                           Inr (fl_mul F (Finite (1 / 2))
                                  (fl_add F (segment_fl F rr1 cad) (segment_fl F rr2 cbd)))))))"

subsection \<open>The rounded reading: the pair evaluation\<close>

text \<open>Lines 113 to 123 of the notebook with float64 operations. \<open>np.isclose\<close> on finite
  values is \<open>abs(x - y) <= atol + rtol * abs(y)\<close>, computed in float64; the tolerances are
  the floats nearest to \<open>1e-5\<close> and \<open>1e-8\<close>. On arrays \<open>**2\<close> is NumPy's square, the
  rounded product.\<close>

definition isclose_fl :: "float_ops \<Rightarrow> real \<Rightarrow> real \<Rightarrow> npfloat \<Rightarrow> npfloat \<Rightarrow> bool" where
  "isclose_fl F a b rtol atol =
     np_less_equal (fl_abs (fl_sub F (Finite a) (Finite b)))
                   (fl_add F atol (fl_mul F rtol (fl_abs (Finite b))))"

definition retained_fl :: "float_ops \<Rightarrow> point \<Rightarrow> point \<Rightarrow> bool" where
  "retained_fl F b r = (\<not> isclose_fl F (fst r) (fst b) (rnd F (1 / 10 ^ 5)) (rnd F (1 / 10 ^ 8)))"

definition mask_fl :: "float_ops \<Rightarrow> point list \<Rightarrow> point list \<Rightarrow> bool list" where
  "mask_fl F blue red = map2 (\<lambda>r b. retained_fl F b r) red blue"

definition square_fl :: "float_ops \<Rightarrow> real \<Rightarrow> npfloat" where
  "square_fl F v = fl_mul F (Finite v) (Finite v)"

definition a_num_fl :: "float_ops \<Rightarrow> point \<Rightarrow> point \<Rightarrow> npfloat" where
  "a_num_fl F b r =
     fl_sub F (fl_add F (fl_sub F (square_fl F (fst r)) (square_fl F (fst b)))
                        (square_fl F (snd r)))
              (square_fl F (snd b))"

definition a_den_fl :: "float_ops \<Rightarrow> point \<Rightarrow> point \<Rightarrow> npfloat" where
  "a_den_fl F b r = fl_mul F (Finite 2) (fl_sub F (Finite (fst r)) (Finite (fst b)))"

definition a_val_fl :: "float_ops \<Rightarrow> point \<Rightarrow> point \<Rightarrow> npfloat" where
  "a_val_fl F b r = fl_div F (a_num_fl F b r) (a_den_fl F b r)"

definition a_vals_fl :: "float_ops \<Rightarrow> point list \<Rightarrow> point list \<Rightarrow> npfloat list" where
  "a_vals_fl F blue red =
     (let m = mask_fl F blue red
      in map2 (\<lambda>r b. a_val_fl F b r) (select m red) (select m blue))"

definition successes_fl :: "float_ops \<Rightarrow> point list \<Rightarrow> point list \<Rightarrow> nat" where
  "successes_fl F blue red =
     length (filter (\<lambda>a. np_ge a 0 \<and> np_le a 1) (a_vals_fl F blue red))"

definition probability_fl :: "float_ops \<Rightarrow> point list \<Rightarrow> point list \<Rightarrow> npfloat" where
  "probability_fl F blue red =
     fl_div F (Finite (real (successes_fl F blue red)))
              (Finite (real (length (filter id (mask_fl F blue red)))))"

text \<open>The retained pairs and the successes among them, pair by pair.\<close>

definition retained_pairs_fl :: "float_ops \<Rightarrow> point list \<Rightarrow> point list \<Rightarrow> (point \<times> point) list" where
  "retained_pairs_fl F blue red = filter (\<lambda>(b, r). retained_fl F b r) (zip blue red)"

definition success_pairs_fl :: "float_ops \<Rightarrow> point list \<Rightarrow> point list \<Rightarrow> (point \<times> point) list" where
  "success_pairs_fl F blue red =
     filter (\<lambda>(b, r). np_ge (a_val_fl F b r) 0 \<and> np_le (a_val_fl F b r) 1)
       (retained_pairs_fl F blue red)"

text \<open>A point whose coordinates are far from overflow.\<close>

definition in_range :: "point \<Rightarrow> bool" where
  "in_range p \<longleftrightarrow> \<bar>fst p\<bar> \<le> 2 ^ 500 \<and> \<bar>snd p\<bar> \<le> 2 ^ 500"

text \<open>Five pairs with dyadic coordinates, on which float64 computes every value below
  without error: \<open>a\<close> is \<open>0\<close>, undefined (equal \<open>x\<close>, the pair is dropped), \<open>1\<close>,
  \<open>2.125\<close> and \<open>-1.03125\<close>.\<close>

definition dyadic_blue :: "point list" where
  "dyadic_blue = [(1 / 2, 1 / 4), (1 / 2, 1 / 4), (1 / 2, 1 / 4), (1 / 2, 1 / 8), (1 / 2, 1 / 4)]"

definition dyadic_red :: "point list" where
  "dyadic_red = [(1 / 4, 1 / 2), (1 / 2, 3 / 4), (3 / 4, 1 / 2), (3 / 4, 7 / 8), (1 / 4, 7 / 8)]"

subsection \<open>The rounded reading: what is assumed of the arithmetic\<close>

text \<open>
  Of the rounding: it never delivers \<open>nan\<close>; it keeps the sign; a result of magnitude at
  most \<open>2 ^ n\<close>, \<open>n \<le> 1023\<close>, is rounded to a finite float of magnitude at most
  \<open>2 ^ n\<close>; doubling a float of magnitude at most \<open>2 ^ 1022\<close> is exact. Of the library:
  \<open>pow(x, 2)\<close> is finite, non-negative and at most \<open>2 ^ (2 n)\<close> when \<open>|x| \<le> 2 ^ n\<close>;
  \<open>arccos\<close> on \<open>[-1, 1]\<close> returns a float between \<open>0\<close> and \<open>\<pi>\<close>; \<open>sin t \<le> t\<close> for
  \<open>t \<ge> 0\<close>, and \<open>|sin t| \<le> 1\<close>.
\<close>

definition rounding_ok :: "(real \<Rightarrow> npfloat) \<Rightarrow> bool" where
  "rounding_ok f \<longleftrightarrow>
     (\<forall>r. f r \<noteq> NaN)
   \<and> (\<forall>r. 0 \<le> r \<longrightarrow> f r \<noteq> NInf \<and> (\<forall>v. f r = Finite v \<longrightarrow> 0 \<le> v))
   \<and> (\<forall>r. r \<le> 0 \<longrightarrow> f r \<noteq> PInf \<and> (\<forall>v. f r = Finite v \<longrightarrow> v \<le> 0))
   \<and> (\<forall>r n. n \<le> 1023 \<and> \<bar>r\<bar> \<le> 2 ^ n \<longrightarrow> (\<exists>v. f r = Finite v \<and> \<bar>v\<bar> \<le> 2 ^ n))
   \<and> (\<forall>r v. f r = Finite v \<and> \<bar>v\<bar> \<le> 2 ^ 1022 \<longrightarrow> f (2 * v) = Finite (2 * v))"

definition library_ok :: "float_ops \<Rightarrow> bool" where
  "library_ok F \<longleftrightarrow>
     (\<forall>x n. 2 * n \<le> 1023 \<and> \<bar>x\<bar> \<le> 2 ^ n \<longrightarrow>
            (\<exists>v. lib_pow2 F x = Finite v \<and> 0 \<le> v \<and> v \<le> 2 ^ (2 * n)))
   \<and> (\<forall>v. - 1 \<le> v \<and> v \<le> 1 \<longrightarrow>
            0 \<le> lib_arccos F v \<and> lib_arccos F v \<le> pi
            \<and> rnd F (lib_arccos F v) = Finite (lib_arccos F v))
   \<and> (\<forall>t. 0 \<le> t \<longrightarrow> lib_sin F t \<le> t)
   \<and> (\<forall>t. \<bar>lib_sin F t\<bar> \<le> 1)"

definition float_arith :: "float_ops \<Rightarrow> bool" where
  "float_arith F \<longleftrightarrow> rounding_ok (rnd F) \<and> library_ok F"

text \<open>A finite value of magnitude at most \<open>2 ^ n\<close>, and a non-negative one.\<close>

definition fin_le :: "nat \<Rightarrow> npfloat \<Rightarrow> bool" where
  "fin_le n a \<longleftrightarrow> (\<exists>v. a = Finite v \<and> \<bar>v\<bar> \<le> 2 ^ n)"

definition fin_pos :: "nat \<Rightarrow> npfloat \<Rightarrow> bool" where
  "fin_pos n a \<longleftrightarrow> (\<exists>v. a = Finite v \<and> 0 \<le> v \<and> v \<le> 2 ^ n)"

text \<open>A float: a value that the rounding delivers.\<close>

definition is_float :: "float_ops \<Rightarrow> real \<Rightarrow> bool" where
  "is_float F v \<longleftrightarrow> (\<exists>r. rnd F r = Finite v)"

subsection \<open>Three arithmetics\<close>

text \<open>
  IEEE 754 binary64 with rounding to nearest, ties to even: \<open>ulp_exp r\<close> is the exponent
  of the last place of \<open>r\<close> (\<open>-1074\<close> among the subnormal numbers), and a result that
  rounds to magnitude \<open>2 ^ 1024\<close> or more is an infinity. \<open>binary64 s a\<close> is this
  arithmetic with a library whose sine is \<open>s\<close> and whose inverse cosine is \<open>a\<close>, and whose
  \<open>pow(x, 2)\<close> is the rounded square.
\<close>

definition round_half_even :: "real \<Rightarrow> int" where
  "round_half_even q =
     (let f = \<lfloor>q\<rfloor>; d = q - of_int f
      in if d < 1 / 2 then f else if 1 / 2 < d then f + 1 else if even f then f else f + 1)"

definition ulp_exp :: "real \<Rightarrow> int" where
  "ulp_exp r = max (\<lfloor>log 2 \<bar>r\<bar>\<rfloor> - 52) (- 1074)"

definition round64 :: "real \<Rightarrow> npfloat" where
  "round64 r =
     (if r = 0 then Finite 0
      else
        let e = ulp_exp r;
            v = of_int (round_half_even (r / 2 powr of_int e)) * 2 powr of_int e
        in if 2 ^ 1024 \<le> \<bar>v\<bar> then (if 0 < r then PInf else NInf) else Finite v)"

definition binary64 :: "(real \<Rightarrow> real) \<Rightarrow> (real \<Rightarrow> real) \<Rightarrow> float_ops" where
  "binary64 s a = \<lparr>rnd = round64, lib_pow2 = (\<lambda>x. round64 (x\<^sup>2)), lib_sin = s, lib_arccos = a\<rparr>"

text \<open>The arithmetic without error: the exact reading.\<close>

definition exact_ops :: float_ops where
  "exact_ops = \<lparr>rnd = Finite, lib_pow2 = (\<lambda>x. Finite (x\<^sup>2)), lib_sin = sin, lib_arccos = arccos\<rparr>"

text \<open>A coarse arithmetic that rounds down to multiples of a quarter: it meets all that is
  assumed above, and its errors are large enough to show on small inputs.\<close>

definition quarter_down :: "real \<Rightarrow> real" where
  "quarter_down r = of_int \<lfloor>4 * r\<rfloor> / 4"

definition coarse_ops :: float_ops where
  "coarse_ops =
     \<lparr>rnd = (\<lambda>r. Finite (quarter_down r)), lib_pow2 = (\<lambda>x. Finite (quarter_down (x\<^sup>2))),
      lib_sin = sin, lib_arccos = (\<lambda>v. quarter_down (arccos v))\<rparr>"

section \<open>The circle geometry\<close>

subsection \<open>Radii and chord angles\<close>

lemma r1_sq: "(r1 x y)\<^sup>2 = x\<^sup>2 + y\<^sup>2"
  by (simp add: r1_def)

lemma r2_sq: "(r2 x y)\<^sup>2 = (1 - x)\<^sup>2 + y\<^sup>2"
  by (simp add: r2_def)

lemma r1_nonneg: "0 \<le> r1 x y"
  by (simp add: r1_def)

lemma r2_nonneg: "0 \<le> r2 x y"
  by (simp add: r2_def)

lemma r1_zero_iff: "r1 x y = 0 \<longleftrightarrow> x = 0 \<and> y = 0"
  by (simp add: r1_def sum_power2_eq_zero_iff)

lemma r2_zero_iff: "r2 x y = 0 \<longleftrightarrow> x = 1 \<and> y = 0"
  by (simp add: r2_def sum_power2_eq_zero_iff)



lemma clip1_bounds: "- 1 \<le> clip1 v" "clip1 v \<le> 1"
  by (simp_all add: clip1_def)

lemma c_ad_arg_val:
  assumes "r1 x y \<noteq> 0"
  shows "c_ad_arg x y = Finite (clip1 (x / r1 x y))"
proof -
  have num: "(r1 x y)\<^sup>2 + 1 - (r2 x y)\<^sup>2 = 2 * x"
    unfolding r1_sq r2_sq by (simp add: power2_eq_square algebra_simps)
  have "np_divide ((r1 x y)\<^sup>2 + 1 - (r2 x y)\<^sup>2) (2 * r1 x y) = Finite (x / r1 x y)"
    unfolding num using assms by (simp add: np_divide_def field_simps)
  then show ?thesis
    by (simp only: c_ad_arg_def Let_def np_clip.simps clip1_def)
qed

lemma c_bd_arg_val:
  assumes "r2 x y \<noteq> 0"
  shows "c_bd_arg x y = Finite (clip1 ((1 - x) / r2 x y))"
proof -
  have num: "(r2 x y)\<^sup>2 + 1 - (r1 x y)\<^sup>2 = 2 * (1 - x)"
    unfolding r1_sq r2_sq by (simp add: power2_eq_square algebra_simps)
  have "np_divide ((r2 x y)\<^sup>2 + 1 - (r1 x y)\<^sup>2) (2 * r2 x y) = Finite ((1 - x) / r2 x y)"
    unfolding num using assms by (simp add: np_divide_def field_simps)
  then show ?thesis
    by (simp only: c_bd_arg_def Let_def np_clip.simps clip1_def)
qed

lemma c_ad_val: "c_ad x y = Finite (angle_ad x y)"
  by (simp add: c_ad_def Let_def c_ad_arg_val angle_ad_def clip1_bounds)

lemma c_bd_val: "c_bd x y = Finite (angle_bd x y)"
  by (simp add: c_bd_def Let_def c_bd_arg_val angle_bd_def clip1_bounds)

lemma intersection_area_val: "intersection_area x y = Finite (lens x y)"
  by (simp add: intersection_area_def Let_def c_ad_val c_bd_val lens_def np_sub_def)

lemma A_val: "A x y = Finite (pi * (r1 x y)\<^sup>2 / 4 + pi * (r2 x y)\<^sup>2 / 4 - lens x y)"
  by (simp add: A_def intersection_area_val np_sub_def)




lemma angle_ad_bounds: "0 \<le> angle_ad x y" "angle_ad x y \<le> 2 * pi"
  using arccos_bounded [OF clip1_bounds, of "x / r1 x y"]
  by (simp_all add: angle_ad_def)

lemma angle_bd_bounds: "0 \<le> angle_bd x y" "angle_bd x y \<le> 2 * pi"
  using arccos_bounded [OF clip1_bounds, of "(1 - x) / r2 x y"]
  by (simp_all add: angle_bd_def)

lemma segment_nonneg: "0 \<le> t \<Longrightarrow> 0 \<le> r\<^sup>2 * (t - sin t)" for t r :: real
  by (simp add: sin_x_le_x)

lemma lens_nonneg: "0 \<le> lens x y"
  using segment_nonneg [OF angle_ad_bounds(1), of "r1 x y" x y]
        segment_nonneg [OF angle_bd_bounds(1), of "r2 x y" x y]
  by (simp add: lens_def)

lemma clip1_ge: "k \<le> c \<Longrightarrow> k \<le> 1 \<Longrightarrow> k \<le> clip1 c"
  by (simp add: clip1_def le_max_iff_disj)

lemma arccos_quarter:
  fixes u r :: real
  assumes "0 < r" "0 \<le> u" "r\<^sup>2 \<le> 2 * u\<^sup>2"
  shows "arccos (clip1 (u / r)) \<le> pi / 4"
proof -
  have e1: "(sqrt 2 * r)\<^sup>2 = 2 * r\<^sup>2"
    by (simp only: power_mult_distrib real_sqrt_pow2 zero_le_numeral)
  have e2: "(2 * u)\<^sup>2 = 4 * u\<^sup>2"
    by (simp only: power_mult_distrib power2_eq_square)
  have "sqrt 2 * r \<le> 2 * u"
  proof (rule power2_le_imp_le)
    show "(sqrt 2 * r)\<^sup>2 \<le> (2 * u)\<^sup>2"
      unfolding e1 e2 using assms(3) by linarith
    show "0 \<le> 2 * u"
      using assms(2) by simp
  qed
  then have "sqrt 2 / 2 \<le> u / r"
    using assms(1) by (simp add: field_simps)
  moreover have "sqrt 2 / 2 \<le> 1"
    using real_sqrt_le_mono [of 2 4] by simp
  ultimately have "sqrt 2 / 2 \<le> clip1 (u / r)"
    by (rule clip1_ge)
  then have c: "cos (pi / 4) \<le> clip1 (u / r)"
    by (simp only: cos_45)
  have "arccos (clip1 (u / r)) \<le> arccos (cos (pi / 4))"
  proof (rule arccos_le_arccos)
    show "- 1 \<le> cos (pi / 4)"
      by (rule cos_ge_minus_one)
    show "cos (pi / 4) \<le> clip1 (u / r)"
      by (rule c)
    show "clip1 (u / r) \<le> 1"
      by (rule clip1_bounds)
  qed
  also have "arccos (cos (pi / 4)) = pi / 4"
    by (rule arccos_cos) simp_all
  finally show ?thesis .
qed

lemma segment_le:
  fixes t r :: real
  assumes "0 \<le> t" "t \<le> pi / 2"
  shows "1 / 2 * (r\<^sup>2 * (t - sin t)) \<le> pi * r\<^sup>2 / 4"
proof -
  have "0 \<le> sin t"
    using assms by (intro sin_ge_zero) simp_all
  then have "t - sin t \<le> pi / 2"
    using assms(2) by simp
  then have "r\<^sup>2 * (t - sin t) \<le> r\<^sup>2 * (pi / 2)"
    by (intro mult_left_mono) simp_all
  then show ?thesis
    by (simp add: mult.commute)
qed

lemma angle_ad_triangle:
  assumes "in_triangle x y"
  shows "angle_ad x y \<le> pi / 2"
proof (cases "r1 x y = 0")
  case True
  then show ?thesis by (simp add: angle_ad_def)
next
  case False
  then have pos: "0 < r1 x y"
    using r1_nonneg [of x y] by simp
  have x0: "0 \<le> x" and "y\<^sup>2 \<le> x\<^sup>2"
    using assms by (simp_all add: in_triangle_def power_mono)
  then have "(r1 x y)\<^sup>2 \<le> 2 * x\<^sup>2"
    unfolding r1_sq by linarith
  then have "arccos (clip1 (x / r1 x y)) \<le> pi / 4"
    by (rule arccos_quarter [OF pos x0])
  then show ?thesis
    using False by (simp add: angle_ad_def)
qed

lemma angle_bd_triangle:
  assumes "in_triangle x y"
  shows "angle_bd x y \<le> pi / 2"
proof (cases "r2 x y = 0")
  case True
  then show ?thesis by (simp add: angle_bd_def)
next
  case False
  then have pos: "0 < r2 x y"
    using r2_nonneg [of x y] by simp
  have x0: "0 \<le> 1 - x" and "y\<^sup>2 \<le> (1 - x)\<^sup>2"
    using assms by (simp_all add: in_triangle_def power_mono)
  then have "(r2 x y)\<^sup>2 \<le> 2 * (1 - x)\<^sup>2"
    unfolding r2_sq by linarith
  then have "arccos (clip1 ((1 - x) / r2 x y)) \<le> pi / 4"
    by (rule arccos_quarter [OF pos x0])
  then show ?thesis
    using False by (simp add: angle_bd_def)
qed

lemma lens_le_quarter_discs:
  assumes "in_triangle x y"
  shows "lens x y \<le> pi * (r1 x y)\<^sup>2 / 4 + pi * (r2 x y)\<^sup>2 / 4"
proof (cases "r1 x y = 0 \<or> r2 x y = 0")
  case True
  then show ?thesis by (simp add: lens_def)
next
  case False
  define s1 where "s1 = (r1 x y)\<^sup>2 * (angle_ad x y - sin (angle_ad x y))"
  define s2 where "s2 = (r2 x y)\<^sup>2 * (angle_bd x y - sin (angle_bd x y))"
  have a: "1 / 2 * s1 \<le> pi * (r1 x y)\<^sup>2 / 4"
    unfolding s1_def by (rule segment_le [OF angle_ad_bounds(1) angle_ad_triangle [OF assms]])
  have b: "1 / 2 * s2 \<le> pi * (r2 x y)\<^sup>2 / 4"
    unfolding s2_def by (rule segment_le [OF angle_bd_bounds(1) angle_bd_triangle [OF assms]])
  have "lens x y = 1 / 2 * (s1 + s2)"
    using False by (simp add: lens_def s1_def s2_def)
  also have "\<dots> = 1 / 2 * s1 + 1 / 2 * s2"
    by (simp add: distrib_left)
  also have "\<dots> \<le> pi * (r1 x y)\<^sup>2 / 4 + pi * (r2 x y)\<^sup>2 / 4"
    by (rule add_mono [OF a b])
  finally show ?thesis .
qed

lemma radii_sq_le_1:
  assumes "in_triangle x y"
  shows "(r1 x y)\<^sup>2 + (r2 x y)\<^sup>2 \<le> 1"
proof -
  have h: "y * y \<le> x * (1 - x)"
    using assms by (intro mult_mono) (simp_all add: in_triangle_def)
  have e: "(r1 x y)\<^sup>2 + (r2 x y)\<^sup>2 = 1 - 2 * (x * (1 - x) - y * y)"
    unfolding r1_sq r2_sq by (simp add: power2_eq_square algebra_simps)
  have "0 \<le> x * (1 - x) - y * y"
    using h by simp
  then show ?thesis
    unfolding e by simp
qed

subsection \<open>The valid area over the canonical region\<close>

text \<open>
  Claim C3. For every blue point \<open>(x, y)\<close> of the canonical triangle (\<open>0 \<le> y \<le> 0.5\<close>,
  \<open>y \<le> x\<close>, \<open>y \<le> 1 - x\<close>) the value \<open>A(x, y)\<close>, the two quarter discs minus the
  intersection area, is a finite number between \<open>0\<close> and \<open>\<pi>/2\<close>; in particular it is
  not negative.
\<close>

theorem A_range:
  assumes "in_triangle x y"
  shows "\<exists>v w. intersection_area x y = Finite w \<and> A x y = Finite v
           \<and> v = pi * (r1 x y)\<^sup>2 / 4 + pi * (r2 x y)\<^sup>2 / 4 - w
           \<and> 0 \<le> v \<and> v \<le> pi / 2"
proof -
  define q where "q = pi * (r1 x y)\<^sup>2 / 4 + pi * (r2 x y)\<^sup>2 / 4"
  have "q = pi / 4 * ((r1 x y)\<^sup>2 + (r2 x y)\<^sup>2)"
    by (simp add: q_def distrib_left)
  also have "\<dots> \<le> pi / 4 * 1"
    by (intro mult_left_mono radii_sq_le_1 [OF assms]) simp
  finally have "q \<le> pi / 4" by simp
  then have "q - lens x y \<le> pi / 2"
    using lens_nonneg [of x y] pi_gt_zero by linarith
  moreover have "0 \<le> q - lens x y"
    using lens_le_quarter_discs [OF assms] by (simp add: q_def)
  ultimately show ?thesis
    by (simp add: A_val intersection_area_val q_def)
qed

text \<open>The theorem at the blue point \<open>(0.5, 0.25)\<close>, which lies in the triangle.\<close>

theorem A_range_witness:
  "in_triangle (1 / 2) (1 / 4) \<and> (\<exists>v. A (1 / 2) (1 / 4) = Finite v \<and> 0 \<le> v \<and> v \<le> pi / 2)"
  using A_range [of "1 / 2" "1 / 4"] by (auto simp: in_triangle_def)

subsection \<open>Reflection across the vertical midline\<close>



subsection \<open>The zero-radius guard\<close>

text \<open>Behind the guard the quotient would be \<open>0 / 0\<close>.\<close>

lemma c_ad_arg_zero: "r1 x y = 0 \<Longrightarrow> c_ad_arg x y = NaN"
  by (simp add: c_ad_arg_def Let_def np_divide_def r1_zero_iff r2_def)

lemma c_bd_arg_zero: "r2 x y = 0 \<Longrightarrow> c_bd_arg x y = NaN"
  by (simp add: c_bd_arg_def Let_def np_divide_def r2_zero_iff r1_def)

text \<open>
  Claim C5. \<open>intersection_area\<close> returns exactly \<open>0\<close> whenever a radius is zero, that is
  whenever \<open>x\<^sup>2 + y\<^sup>2 = 0\<close> or \<open>(1 - x)\<^sup>2 + y\<^sup>2 = 0\<close>; \<open>c_ad\<close> returns the angle \<open>0\<close>
  when \<open>r1 = 0\<close> and \<open>c_bd\<close> when \<open>r2 = 0\<close>. The quotient by \<open>2 r1\<close> or \<open>2 r2\<close>, which
  would be \<open>nan\<close> there, is not what is returned, and at no point does any of the three
  functions return a value that is not finite.
\<close>

theorem zero_radius_guard:
  "(r1 x y = 0 \<longleftrightarrow> x\<^sup>2 + y\<^sup>2 = 0) \<and> (r2 x y = 0 \<longleftrightarrow> (1 - x)\<^sup>2 + y\<^sup>2 = 0)
   \<and> (x\<^sup>2 + y\<^sup>2 = 0 \<or> (1 - x)\<^sup>2 + y\<^sup>2 = 0 \<longrightarrow> intersection_area x y = Finite 0)
   \<and> (r1 x y = 0 \<longrightarrow> c_ad x y = Finite 0 \<and> c_ad_arg x y = NaN)
   \<and> (r2 x y = 0 \<longrightarrow> c_bd x y = Finite 0 \<and> c_bd_arg x y = NaN)
   \<and> (\<exists>a b v. c_ad x y = Finite a \<and> c_bd x y = Finite b \<and> intersection_area x y = Finite v)"
proof -
  have a: "r1 x y = 0 \<longleftrightarrow> x\<^sup>2 + y\<^sup>2 = 0"
    by (simp add: r1_def)
  have b: "r2 x y = 0 \<longleftrightarrow> (1 - x)\<^sup>2 + y\<^sup>2 = 0"
    by (simp add: r2_def)
  have c: "r1 x y = 0 \<or> r2 x y = 0 \<longrightarrow> intersection_area x y = Finite 0"
    by (auto simp: intersection_area_def)
  have d: "r1 x y = 0 \<longrightarrow> c_ad x y = Finite 0 \<and> c_ad_arg x y = NaN"
    by (simp add: c_ad_def c_ad_arg_zero)
  have e: "r2 x y = 0 \<longrightarrow> c_bd x y = Finite 0 \<and> c_bd_arg x y = NaN"
    by (simp add: c_bd_def c_bd_arg_zero)
  have f: "\<exists>a b v. c_ad x y = Finite a \<and> c_bd x y = Finite b \<and> intersection_area x y = Finite v"
    by (simp add: c_ad_val c_bd_val intersection_area_val)
  from c show ?thesis
    unfolding a b using a b d e f by blast
qed

text \<open>The theorem at the two corners \<open>(0, 0)\<close> and \<open>(1, 0)\<close>, where a radius is zero.\<close>

theorem zero_radius_guard_witness:
  "r1 0 0 = 0 \<and> (0 :: real)\<^sup>2 + 0\<^sup>2 = 0 \<and> intersection_area 0 0 = Finite 0 \<and> c_ad 0 0 = Finite 0
   \<and> r2 1 0 = 0 \<and> (1 - 1 :: real)\<^sup>2 + 0\<^sup>2 = 0 \<and> intersection_area 1 0 = Finite 0
   \<and> c_bd 1 0 = Finite 0"
  using zero_radius_guard [of 0 0] zero_radius_guard [of 1 0]
  by simp

section \<open>The simulation\<close>

lemma rand_fst: "fst (rand n src pos) = map src [pos..<pos + n]"
  by (simp add: rand_def)

lemma rand_snd: "snd (rand n src pos) = pos + n"
  by (simp add: rand_def)

lemma blue_loop_exit:
  "\<not> int (length blue) < n \<Longrightarrow> blue_loop n src blue pos = Some (blue, pos)"
  by (subst blue_loop.simps) simp

lemma blue_loop_step:
  "int (length blue) < n \<Longrightarrow>
   blue_loop n src blue pos =
   blue_loop n src (blue @ filter valid (map src [pos..<pos + nat n])) (pos + nat n)"
  by (subst blue_loop.simps) (simp add: rand_fst rand_snd)

lemma blue_loop_returns:
  assumes "n \<le> int (length blue) + int (length (filter valid (map src [pos..<pos + k * nat n])))"
  shows "\<exists>blue' pos'. blue_loop n src blue pos = Some (blue', pos')
           \<and> n \<le> int (length blue')
           \<and> set blue' \<subseteq> set blue \<union> {p \<in> range src. valid p}"
  using assms
proof (induction k arbitrary: blue pos)
  case 0
  then have "\<not> int (length blue) < n" by simp
  then have "blue_loop n src blue pos = Some (blue, pos)"
    by (rule blue_loop_exit)
  with 0 show ?case by simp
next
  case (Suc k)
  show ?case
  proof (cases "int (length blue) < n")
    case False
    then have "blue_loop n src blue pos = Some (blue, pos)"
      by (rule blue_loop_exit)
    with False show ?thesis by simp
  next
    case True
    define batch where "batch = filter valid (map src [pos..<pos + nat n])"
    have split: "[pos..<pos + Suc k * nat n] =
                 [pos..<pos + nat n] @ [pos + nat n..<pos + nat n + k * nat n]"
    proof -
      have "pos + Suc k * nat n = (pos + nat n) + k * nat n"
        by simp
      then show ?thesis
        by (simp only: upt_add_eq_append [OF le_add1])
    qed
    have "n \<le> int (length (blue @ batch)) +
            int (length (filter valid (map src [pos + nat n..<pos + nat n + k * nat n])))"
      using Suc.prems unfolding split batch_def by simp
    from Suc.IH [OF this] obtain blue' pos' where
      r: "blue_loop n src (blue @ batch) (pos + nat n) = Some (blue', pos')"
         "n \<le> int (length blue')"
         "set blue' \<subseteq> set (blue @ batch) \<union> {p \<in> range src. valid p}"
      by blast
    have "blue_loop n src blue pos = blue_loop n src (blue @ batch) (pos + nat n)"
      unfolding batch_def by (rule blue_loop_step [OF True])
    moreover have "set batch \<subseteq> {p \<in> range src. valid p}"
      by (auto simp: batch_def)
    ultimately show ?thesis
      using r by auto
  qed
qed

text \<open>Whatever the loop returns has at least \<open>num_samples\<close> points.\<close>

lemma blue_loop_length:
  assumes "blue_loop n src blue pos = Some r"
  shows "n \<le> int (length (fst r))"
  by (rule blue_loop.raw_induct
        [where P = "\<lambda>n src blue pos r. n \<le> int (length (fst r))", OF _ assms])
     (auto split: if_splits)

lemma select_Cons: "select (m # ms) (x # xs) = (if m then x # select ms xs else select ms xs)"
  by (simp add: select_def)

lemma select_Nil: "select [] xs = []" "select ms [] = []"
  by (simp_all add: select_def)

lemma mask_Cons: "mask_of (b # blue) (r # red) = retained b r # mask_of blue red"
  by (simp add: mask_of_def)

lemma mask_Nil: "mask_of [] red = []" "mask_of blue [] = []"
  by (simp_all add: mask_of_def)

lemma retained_iff:
  "retained b r \<longleftrightarrow> \<not> \<bar>fst r - fst b\<bar> \<le> 1 / 10 ^ 8 + 1 / 10 ^ 5 * \<bar>fst b\<bar>"
  by (simp add: retained_def np_isclose_def default_rtol_def)

lemma retained_distinct: "retained b r \<Longrightarrow> fst r \<noteq> fst b"
proof
  assume r: "retained b r" and e: "fst r = fst b"
  have "0 \<le> 1 / 10 ^ 5 * \<bar>fst b\<bar>" by simp
  then have "\<bar>fst r - fst b\<bar> \<le> 1 / 10 ^ 8 + 1 / 10 ^ 5 * \<bar>fst b\<bar>"
    unfolding e by simp
  with r show False
    unfolding retained_iff by blast
qed

lemma retained_quotient: "retained b r \<Longrightarrow> a_val b r = Finite (a_formula b r)"
  by (drule retained_distinct) (simp add: a_val_def np_divide_def a_formula_def)

lemma a_vals_Nil: "a_vals [] red = []" "a_vals blue [] = []"
  by (simp_all add: a_vals_def mask_Nil select_Nil)

lemma a_vals_Cons:
  "a_vals (b # blue) (r # red) =
     (if retained b r then Finite (a_formula b r) # a_vals blue red else a_vals blue red)"
  by (simp add: a_vals_def Let_def mask_Cons select_Cons retained_quotient)



subsection \<open>Degenerate pairs\<close>




subsection \<open>The blue-point sampler\<close>

lemma filter_prefix_mono:
  assumes "m \<le> m'"
  shows "length (filter P (map f [0..<m])) \<le> length (filter P (map f [0..<m']))"
proof -
  have "[0..<m'] = [0..<m] @ [m..<m']"
    using assms by (metis le_add_diff_inverse upt_add_eq_append zero_le)
  then show ?thesis by simp
qed

text \<open>
  Claim C7, as the code has it. Let the target count \<open>N\<close> be at least \<open>1\<close>, let the random
  source deliver coordinates in \<open>[0, 1)\<close>, and let it deliver at least \<open>N\<close> rows that lie in
  the triangle. Then the sampler returns, with exactly \<open>N\<close> points, and every returned
  point satisfies \<open>0 \<le> y \<le> 0.5\<close>, \<open>y \<le> x\<close>, \<open>y \<le> 1 - x\<close> with both coordinates in
  \<open>[0, 1]\<close>.
\<close>

theorem blue_sampler_returns:
  assumes "1 \<le> n"
    and "\<forall>i. 0 \<le> fst (src i) \<and> fst (src i) < 1 \<and> 0 \<le> snd (src i) \<and> snd (src i) < 1"
    and "\<exists>m. nat n \<le> length (filter valid (map src [0..<m]))"
  shows "\<exists>blue pos. blue_points n src = Some (blue, pos) \<and> length blue = nat n
           \<and> (\<forall>p \<in> set blue. 0 \<le> snd p \<and> snd p \<le> 1 / 2 \<and> snd p \<le> fst p \<and> snd p \<le> 1 - fst p
                  \<and> 0 \<le> fst p \<and> fst p \<le> 1 \<and> snd p \<le> 1)"
proof -
  from assms(3) obtain m where m: "nat n \<le> length (filter valid (map src [0..<m]))"
    by blast
  have "1 \<le> nat n"
    using assms(1) by linarith
  then have "m \<le> m * nat n"
    by simp
  then have "length (filter valid (map src [0..<m]))
               \<le> length (filter valid (map src [0..<m * nat n]))"
    by (rule filter_prefix_mono)
  with m have "nat n \<le> length (filter valid (map src [0..<0 + m * nat n]))"
    by simp
  then have "n \<le> int (length ([] :: point list)) + int (length (filter valid (map src [0..<0 + m * nat n])))"
    by simp
  from blue_loop_returns [OF this] obtain blue' pos' where
    r: "blue_loop n src [] 0 = Some (blue', pos')" "n \<le> int (length blue')"
       "set blue' \<subseteq> {p \<in> range src. valid p}"
    by auto
  have pts: "blue_points n src = Some (take (nat n) blue', pos')"
    using r(1) assms(1) by (simp add: blue_points_def slice_to_def)
  have len: "length (take (nat n) blue') = nat n"
    using r(2) by simp
  have sub: "set (take (nat n) blue') \<subseteq> {p \<in> range src. valid p}"
    by (rule order_trans [OF set_take_subset r(3)])
  have "\<forall>p \<in> set (take (nat n) blue').
          0 \<le> snd p \<and> snd p \<le> 1 / 2 \<and> snd p \<le> fst p \<and> snd p \<le> 1 - fst p
          \<and> 0 \<le> fst p \<and> fst p \<le> 1 \<and> snd p \<le> 1"
  proof
    fix p
    assume "p \<in> set (take (nat n) blue')"
    with sub have "p \<in> range src" and v: "valid p"
      by auto
    then obtain i where "p = src i"
      by auto
    with assms(2) have "0 \<le> fst p \<and> fst p < 1 \<and> 0 \<le> snd p \<and> snd p < 1"
      by simp
    with v show "0 \<le> snd p \<and> snd p \<le> 1 / 2 \<and> snd p \<le> fst p \<and> snd p \<le> 1 - fst p
          \<and> 0 \<le> fst p \<and> fst p \<le> 1 \<and> snd p \<le> 1"
      by (simp add: valid_def)
  qed
  with pts len show ?thesis by blast
qed

text \<open>A run of the sampler on the source that always delivers \<open>(0.5, 0.25)\<close>.\<close>

lemma centre_valid: "valid (centre_source i)"
  by (simp add: valid_def centre_source_def)

lemma blue_points_centre: "blue_points 2 centre_source = Some ([(1 / 2, 1 / 4), (1 / 2, 1 / 4)], 2)"
proof -
  have "blue_loop 2 centre_source [] 0 =
        blue_loop 2 centre_source ([] @ filter valid (map centre_source [0..<0 + nat 2])) (0 + nat 2)"
    by (rule blue_loop_step) simp
  also have "[] @ filter valid (map centre_source [0..<0 + nat 2]) = [(1 / 2, 1 / 4), (1 / 2, 1 / 4)]"
    by (simp add: centre_valid upt_rec, simp add: centre_source_def)
  also have "blue_loop 2 centre_source [(1 / 2, 1 / 4), (1 / 2, 1 / 4)] (0 + nat 2) =
             Some ([(1 / 2, 1 / 4), (1 / 2, 1 / 4)], 0 + nat 2)"
    by (rule blue_loop_exit) simp
  finally show ?thesis
    by (simp add: blue_points_def slice_to_def)
qed

text \<open>The theorem for \<open>N = 2\<close> on that source.\<close>

theorem blue_sampler_returns_witness:
  "(1 :: int) \<le> 2
   \<and> (\<forall>i. 0 \<le> fst (centre_source i) \<and> fst (centre_source i) < 1
           \<and> 0 \<le> snd (centre_source i) \<and> snd (centre_source i) < 1)
   \<and> (\<exists>m. nat 2 \<le> length (filter valid (map centre_source [0..<m])))
   \<and> (\<exists>blue pos. blue_points 2 centre_source = Some (blue, pos) \<and> length blue = nat 2
           \<and> (\<exists>p \<in> set blue. 0 \<le> snd p \<and> snd p \<le> 1 / 2 \<and> snd p \<le> fst p \<and> snd p \<le> 1 - fst p
                  \<and> 0 \<le> fst p \<and> fst p \<le> 1 \<and> snd p \<le> 1))"
proof -
  have b: "\<forall>i. 0 \<le> fst (centre_source i) \<and> fst (centre_source i) < 1
           \<and> 0 \<le> snd (centre_source i) \<and> snd (centre_source i) < 1"
    by (simp add: centre_source_def)
  have e: "\<exists>m. nat 2 \<le> length (filter valid (map centre_source [0..<m]))"
    by (rule exI [of _ 2]) (simp add: centre_valid)
  from blue_sampler_returns [of 2 centre_source, OF _ b e] b e show ?thesis
    by (simp add: blue_points_centre)
qed

text \<open>A source that never delivers a row of the triangle.\<close>

lemma stuck_never_valid: "\<not> valid (stuck_source i)"
  by (simp add: valid_def stuck_source_def)

lemma blue_loop_stuck:
  assumes "blue_loop n stuck_source blue pos = Some r"
  shows "\<not> int (length blue) < n"
  by (rule blue_loop.raw_induct
        [where P = "\<lambda>n src blue pos r. src = stuck_source \<longrightarrow> \<not> int (length blue) < n",
         OF _ assms, rule_format])
     (auto split: if_splits simp: rand_fst stuck_never_valid)

text \<open>
  On the source that always delivers \<open>(0.9, 0.9)\<close> no row is ever accepted, and the sampler
  does not return, not even for \<open>N = 1\<close>.
\<close>

theorem sampler_stuck: "blue_points 1 stuck_source = None"
proof (cases "blue_loop 1 stuck_source [] 0")
  case None
  then show ?thesis by (simp add: blue_points_def)
next
  case (Some r)
  from blue_loop_stuck [OF this] show ?thesis by simp
qed

subsection \<open>When no pair is retained\<close>

text \<open>What the function returns once the sampler has returned.\<close>

lemma blue_points_length:
  assumes "blue_points n src = Some (blue, pos)" "0 \<le> n"
  shows "length blue = nat n"
proof -
  from assms(1) obtain r where r: "blue_loop n src [] 0 = Some r" "blue = slice_to (fst r) n"
    by (auto simp: blue_points_def split: option.splits)
  from blue_loop_length [OF r(1)] r(2) assms(2) show ?thesis
    by (simp add: slice_to_def)
qed

lemma vectorized_simulation_returns:
  assumes "1 \<le> n" "blue_points n src = Some (blue, pos)"
  shows "vectorized_simulation n src = Some (Inr (probability blue (map src [pos..<pos + nat n])))"
proof -
  have "length blue = nat n"
    using blue_points_length [OF assms(2)] assms(1) by simp
  then have "blue \<noteq> []"
    using assms(1) by auto
  then show ?thesis
    using assms by (simp add: vectorized_simulation_def rand_fst)
qed

lemma all_excluded:
  "list_all2 (\<lambda>b r. \<not> retained b r) blue red \<Longrightarrow>
   a_vals blue red = [] \<and> filter id (mask_of blue red) = []"
  by (induction rule: list_all2_induct) (simp_all add: a_vals_Nil a_vals_Cons mask_Nil mask_Cons)

text \<open>
  Claim C10, as the code has it. The final division is unguarded: when \<open>num_samples\<close> is at
  least \<open>1\<close>, the sampler has returned and every pair is excluded by the mask, the function
  returns without raising, and what it returns is \<open>nan\<close>, the quotient \<open>0 / 0\<close>.
\<close>

theorem all_excluded_gives_nan:
  assumes "1 \<le> n" "blue_points n src = Some (blue, pos)"
    and "\<forall>i < nat n. \<not> retained (blue ! i) (src (pos + i))"
  shows "vectorized_simulation n src = Some (Inr NaN)"
proof -
  have "length blue = nat n"
    using blue_points_length [OF assms(2)] assms(1) by simp
  then have "list_all2 (\<lambda>b r. \<not> retained b r) blue (map src [pos..<pos + nat n])"
    using assms(3) by (simp add: list_all2_conv_all_nth)
  then have "probability blue (map src [pos..<pos + nat n]) = NaN"
    by (simp add: all_excluded probability_def successes_def np_divide_def)
  then show ?thesis
    using vectorized_simulation_returns [OF assms(1,2)] by simp
qed

text \<open>The theorem for \<open>num_samples = 2\<close> on the source that always delivers \<open>(0.5, 0.25)\<close>:
  blue and red points coincide.\<close>

theorem all_excluded_gives_nan_witness:
  "(1 :: int) \<le> 2
   \<and> blue_points 2 centre_source = Some ([(1 / 2, 1 / 4), (1 / 2, 1 / 4)], 2)
   \<and> \<not> retained ([(1 / 2, 1 / 4), (1 / 2, 1 / 4)] ! 0) (centre_source (2 + 0))
   \<and> \<not> retained ([(1 / 2, 1 / 4), (1 / 2, 1 / 4)] ! 1) (centre_source (2 + 1))
   \<and> vectorized_simulation 2 centre_source = Some (Inr NaN)"
proof -
  have x: "\<forall>i < nat 2. \<not> retained ([(1 / 2, 1 / 4), (1 / 2, 1 / 4)] ! i) (centre_source (2 + i))"
    by (simp add: retained_iff centre_source_def less_Suc_eq nth_Cons')
  from all_excluded_gives_nan [of 2 centre_source, OF _ blue_points_centre x] blue_points_centre
  show ?thesis by (simp add: retained_iff centre_source_def)
qed

text \<open>
  For \<open>num_samples = 0\<close> the function does not return: the array of no blue points is
  one-dimensional, and indexing its first column raises an \<open>IndexError\<close>.
\<close>

theorem empty_run_raises: "vectorized_simulation 0 centre_source = Some (Inl IndexError)"
proof -
  have "blue_loop 0 centre_source [] 0 = Some ([], 0)"
    by (rule blue_loop_exit) simp
  then show ?thesis
    by (simp add: vectorized_simulation_def blue_points_def slice_to_def)
qed

section \<open>The rounded reading\<close>

subsection \<open>Bounds that survive rounding\<close>

lemma rnd_not_nan: "float_arith F \<Longrightarrow> rnd F r \<noteq> NaN"
  unfolding float_arith_def rounding_ok_def by blast

lemma rnd_sign_pos: "float_arith F \<Longrightarrow> 0 \<le> r \<Longrightarrow> rnd F r = Finite v \<Longrightarrow> 0 \<le> v"
  unfolding float_arith_def rounding_ok_def by blast

lemma rnd_not_ninf: "float_arith F \<Longrightarrow> 0 \<le> r \<Longrightarrow> rnd F r \<noteq> NInf"
  unfolding float_arith_def rounding_ok_def by blast

lemma rnd_bound:
  "float_arith F \<Longrightarrow> n \<le> 1023 \<Longrightarrow> \<bar>r\<bar> \<le> 2 ^ n \<Longrightarrow> \<exists>v. rnd F r = Finite v \<and> \<bar>v\<bar> \<le> 2 ^ n"
  unfolding float_arith_def rounding_ok_def by blast

lemma rnd_double:
  "float_arith F \<Longrightarrow> is_float F v \<Longrightarrow> \<bar>v\<bar> \<le> 2 ^ 1022 \<Longrightarrow> rnd F (2 * v) = Finite (2 * v)"
  unfolding float_arith_def rounding_ok_def is_float_def by blast

lemma lib_pow2_bound:
  "float_arith F \<Longrightarrow> 2 * n \<le> 1023 \<Longrightarrow> \<bar>x\<bar> \<le> 2 ^ n \<Longrightarrow>
   \<exists>v. lib_pow2 F x = Finite v \<and> 0 \<le> v \<and> v \<le> 2 ^ (2 * n)"
  unfolding float_arith_def library_ok_def by blast

lemma lib_arccos_range:
  "float_arith F \<Longrightarrow> - 1 \<le> v \<Longrightarrow> v \<le> 1 \<Longrightarrow>
   0 \<le> lib_arccos F v \<and> lib_arccos F v \<le> pi \<and> is_float F (lib_arccos F v)"
  unfolding float_arith_def library_ok_def is_float_def by blast

lemma lib_sin_le: "float_arith F \<Longrightarrow> 0 \<le> t \<Longrightarrow> lib_sin F t \<le> t"
  unfolding float_arith_def library_ok_def by blast

lemma lib_sin_abs: "float_arith F \<Longrightarrow> \<bar>lib_sin F t\<bar> \<le> 1"
  unfolding float_arith_def library_ok_def by blast

lemma fin_pos_le: "fin_pos n a \<Longrightarrow> fin_le n a"
  by (auto simp: fin_pos_def fin_le_def)

lemma pow2_mono: "m \<le> n \<Longrightarrow> (2 :: real) ^ m \<le> 2 ^ n"
  by (rule power_increasing) simp_all

lemma fin_le_mono:
  assumes "fin_le m a" "m \<le> n"
  shows "fin_le n a"
proof -
  from assms(1) obtain v where v: "a = Finite v" "\<bar>v\<bar> \<le> 2 ^ m"
    by (auto simp: fin_le_def)
  from v(2) pow2_mono [OF assms(2)] have "\<bar>v\<bar> \<le> 2 ^ n"
    by (rule order_trans)
  with v(1) show ?thesis
    by (simp add: fin_le_def)
qed

lemma fin_pos_mono:
  assumes "fin_pos m a" "m \<le> n"
  shows "fin_pos n a"
proof -
  from assms(1) obtain v where v: "a = Finite v" "0 \<le> v" "v \<le> 2 ^ m"
    by (auto simp: fin_pos_def)
  from v(3) pow2_mono [OF assms(2)] have "v \<le> 2 ^ n"
    by (rule order_trans)
  with v(1,2) show ?thesis
    by (simp add: fin_pos_def)
qed

lemma rnd_fin_le:
  assumes "float_arith F" "n \<le> 1023" "\<bar>r\<bar> \<le> 2 ^ n"
  shows "fin_le n (rnd F r)"
  using rnd_bound [OF assms] by (simp add: fin_le_def)

lemma rnd_fin_pos:
  assumes "float_arith F" "n \<le> 1023" "0 \<le> r" "r \<le> 2 ^ n"
  shows "fin_pos n (rnd F r)"
proof -
  from assms(3,4) have "\<bar>r\<bar> \<le> 2 ^ n" by simp
  from rnd_bound [OF assms(1,2) this] obtain v where v: "rnd F r = Finite v" "\<bar>v\<bar> \<le> 2 ^ n"
    by blast
  from rnd_sign_pos [OF assms(1,3) v(1)] v show ?thesis
    by (simp add: fin_pos_def)
qed

lemma fl_add_pos:
  assumes "float_arith F" "fin_pos n a" "fin_pos n b" "Suc n \<le> 1023"
  shows "fin_pos (Suc n) (fl_add F a b)"
proof -
  from assms(2,3) obtain u v where uv: "a = Finite u" "0 \<le> u" "u \<le> 2 ^ n"
      "b = Finite v" "0 \<le> v" "v \<le> 2 ^ n"
    by (auto simp: fin_pos_def)
  then have "0 \<le> u + v" "u + v \<le> 2 ^ Suc n"
    by simp_all
  from rnd_fin_pos [OF assms(1,4) this] uv show ?thesis
    by simp
qed

lemma fl_sub_le:
  assumes "float_arith F" "fin_le n a" "fin_le n b" "Suc n \<le> 1023"
  shows "fin_le (Suc n) (fl_sub F a b)"
proof -
  from assms(2,3) obtain u v where uv: "a = Finite u" "\<bar>u\<bar> \<le> 2 ^ n" "b = Finite v" "\<bar>v\<bar> \<le> 2 ^ n"
    by (auto simp: fin_le_def)
  then have "\<bar>u - v\<bar> \<le> 2 ^ Suc n"
    by simp
  from rnd_fin_le [OF assms(1,4) this] uv show ?thesis
    by simp
qed

lemma fl_mul_pos:
  assumes "float_arith F" "fin_pos m a" "fin_pos n b" "m + n \<le> 1023"
  shows "fin_pos (m + n) (fl_mul F a b)"
proof -
  from assms(2,3) obtain u v where uv: "a = Finite u" "0 \<le> u" "u \<le> 2 ^ m"
      "b = Finite v" "0 \<le> v" "v \<le> 2 ^ n"
    by (auto simp: fin_pos_def)
  then have "0 \<le> u * v"
    by simp
  moreover have "u * v \<le> 2 ^ m * 2 ^ n"
    using uv by (intro mult_mono) simp_all
  then have "u * v \<le> 2 ^ (m + n)"
    by (simp add: power_add)
  ultimately show ?thesis
    using rnd_fin_pos [OF assms(1,4)] uv by simp
qed

lemma fl_sqrt_pos:
  assumes "float_arith F" "fin_pos (2 * n) a" "n \<le> 1023"
  shows "fin_pos n (fl_sqrt F a)"
proof -
  from assms(2) obtain v where v: "a = Finite v" "0 \<le> v" "v \<le> 2 ^ (2 * n)"
    by (auto simp: fin_pos_def)
  have "v \<le> (2 ^ n)\<^sup>2"
    using v(3) by (simp only: power_even_eq)
  then have "sqrt v \<le> 2 ^ n"
    by (intro real_le_lsqrt) simp_all
  moreover have "0 \<le> sqrt v"
    using v(2) by simp
  ultimately show ?thesis
    using rnd_fin_pos [OF assms(1,3)] v by simp
qed

lemma fl_sqrt_float:
  "float_arith F \<Longrightarrow> fin_pos m a \<Longrightarrow> fl_sqrt F a = Finite v \<Longrightarrow> is_float F v"
  by (auto simp: fin_pos_def is_float_def)

lemma py_pow2_pos:
  assumes "float_arith F" "fin_le n a" "2 * n \<le> 1023"
  shows "\<exists>b. py_pow2 F a = Inr b \<and> fin_pos (2 * n) b"
proof -
  from assms(2) obtain v where v: "a = Finite v" "\<bar>v\<bar> \<le> 2 ^ n"
    by (auto simp: fin_le_def)
  from lib_pow2_bound [OF assms(1,3) v(2)] v(1) show ?thesis
    by (auto simp: fin_pos_def)
qed

lemma radii_fl:
  assumes A: "float_arith F" and k: "k \<le> 500" and x: "\<bar>x\<bar> \<le> 2 ^ k" and y: "\<bar>y\<bar> \<le> 2 ^ k"
  shows "\<exists>a b. r1_fl F x y = Inr (Finite a) \<and> r2_fl F x y = Inr (Finite b)
            \<and> fin_pos (k + 1) (Finite a) \<and> fin_pos (k + 2) (Finite b)
            \<and> is_float F a \<and> is_float F b"
proof -
  have fx: "fin_le k (Finite x)" and fy: "fin_le k (Finite y)"
    using x y by (simp_all add: fin_le_def)
  from py_pow2_pos [OF A fx] k obtain xx where xx: "py_pow2 F (Finite x) = Inr xx" "fin_pos (2 * k) xx"
    by auto
  from py_pow2_pos [OF A fy] k obtain yy where yy: "py_pow2 F (Finite y) = Inr yy" "fin_pos (2 * k) yy"
    by auto
  have "fin_pos (Suc (2 * k)) (fl_add F xx yy)"
    using k by (intro fl_add_pos [OF A xx(2) yy(2)]) simp
  then have "fin_pos (2 * (k + 1)) (fl_add F xx yy)"
    by (rule fin_pos_mono) simp
  then have s1: "fin_pos (k + 1) (fl_sqrt F (fl_add F xx yy))"
    using k by (intro fl_sqrt_pos [OF A]) simp_all
  have "fin_le k (Finite 1)"
    by (simp add: fin_le_def)
  then have t: "fin_le (Suc k) (fl_sub F (Finite 1) (Finite x))"
    using k by (intro fl_sub_le [OF A _ fx]) simp_all
  from py_pow2_pos [OF A t] k obtain tt where
    tt: "py_pow2 F (fl_sub F (Finite 1) (Finite x)) = Inr tt" "fin_pos (2 * Suc k) tt"
    by auto
  have "fin_pos (2 * Suc k) yy"
    using yy(2) by (rule fin_pos_mono) simp
  then have "fin_pos (Suc (2 * Suc k)) (fl_add F tt yy)"
    using k by (intro fl_add_pos [OF A tt(2)]) simp_all
  then have "fin_pos (2 * (k + 2)) (fl_add F tt yy)"
    by (rule fin_pos_mono) simp
  then have s2: "fin_pos (k + 2) (fl_sqrt F (fl_add F tt yy))"
    using k by (intro fl_sqrt_pos [OF A]) simp_all
  from s1 obtain a where a: "fl_sqrt F (fl_add F xx yy) = Finite a"
    by (auto simp: fin_pos_def)
  from s2 obtain b where b: "fl_sqrt F (fl_add F tt yy) = Finite b"
    by (auto simp: fin_pos_def)
  have "fin_pos (Suc (2 * k)) (fl_add F xx yy)"
    using k by (intro fl_add_pos [OF A xx(2) yy(2)]) simp
  from fl_sqrt_float [OF A this a] have fa: "is_float F a" .
  have "fin_pos (Suc (2 * Suc k)) (fl_add F tt yy)"
    using k \<open>fin_pos (2 * Suc k) yy\<close> by (intro fl_add_pos [OF A tt(2)]) simp_all
  from fl_sqrt_float [OF A this b] have fb: "is_float F b" .
  have "r1_fl F x y = Inr (Finite a)"
    by (simp only: r1_fl_def xx yy a sum.case)
  moreover have "r2_fl F x y = Inr (Finite b)"
    by (simp only: r2_fl_def tt yy b sum.case)
  ultimately show ?thesis
    using s1 s2 a b fa fb by auto
qed

lemma np_pow2_pos:
  assumes "float_arith F" "fin_pos n (Finite p)" "2 * n \<le> 1023"
  shows "fin_pos (n + n) (np_pow2 F (Finite p))"
proof -
  from assms(2) have "\<bar>p\<bar> \<le> 2 ^ n"
    by (simp add: fin_pos_def)
  from lib_pow2_bound [OF assms(1,3) this] show ?thesis
    by (auto simp: fin_pos_def mult_2)
qed

lemma clip_range: "q \<noteq> NaN \<Longrightarrow> \<exists>v. np_clip q (- 1) 1 = Finite v \<and> - 1 \<le> v \<and> v \<le> 1"
  by (cases q) simp_all

lemma four_le: "(4 :: real) \<le> 2 ^ 1022"
proof -
  have "(2 :: real) ^ 2 \<le> 2 ^ 1022"
    by (rule pow2_mono) simp
  then show ?thesis by simp
qed

text \<open>The quotient of a chord angle is never \<open>nan\<close>, so the clip puts it into the range of
  the inverse cosine. \<open>p\<close> is the radius at the centre of the angle, \<open>q\<close> the other one.\<close>

lemma quotient_not_nan:
  assumes A: "float_arith F" and n: "2 * n + 3 \<le> 1023"
    and p: "fin_pos n (Finite p)" "is_float F p" "p \<noteq> 0"
    and q: "fin_pos n (Finite q)"
  shows "fl_div F (fl_sub F (fl_add F (np_pow2 F (Finite p)) (Finite 1))
                           (np_pow2 F (Finite q)))
                  (fl_mul F (Finite 2) (Finite p)) \<noteq> NaN"
proof -
  have pp: "fin_pos (n + n) (np_pow2 F (Finite p))"
    using n p(1) by (intro np_pow2_pos [OF A]) simp_all
  have qq: "fin_pos (n + n) (np_pow2 F (Finite q))"
    using n q by (intro np_pow2_pos [OF A]) simp_all
  have "fin_pos (n + n) (Finite 1)"
    by (simp add: fin_pos_def)
  then have "fin_pos (Suc (n + n)) (fl_add F (np_pow2 F (Finite p)) (Finite 1))"
    using n by (intro fl_add_pos [OF A pp]) simp_all
  then have "fin_le (Suc (n + n)) (fl_add F (np_pow2 F (Finite p)) (Finite 1))"
    by (rule fin_pos_le)
  moreover have "fin_le (Suc (n + n)) (np_pow2 F (Finite q))"
    by (rule fin_le_mono [OF fin_pos_le [OF qq]]) simp
  ultimately have "fin_le (Suc (Suc (n + n)))
      (fl_sub F (fl_add F (np_pow2 F (Finite p)) (Finite 1))
                (np_pow2 F (Finite q)))"
    using n by (intro fl_sub_le [OF A]) simp_all
  then obtain num where num:
    "fl_sub F (fl_add F (np_pow2 F (Finite p)) (Finite 1))
              (np_pow2 F (Finite q)) = Finite num"
    by (auto simp: fin_le_def)
  have "\<bar>p\<bar> \<le> 2 ^ n"
    using p(1) by (simp add: fin_pos_def)
  also have "(2 :: real) ^ n \<le> 2 ^ 1022"
    using n by (intro pow2_mono) simp
  finally have "rnd F (2 * p) = Finite (2 * p)"
    by (rule rnd_double [OF A p(2)])
  then have den: "fl_mul F (Finite 2) (Finite p) = Finite (2 * p)"
    by simp
  show ?thesis
    unfolding num den using p(3) rnd_not_nan [OF A] by simp
qed

lemma arg_ad_range:
  assumes A: "float_arith F" and n: "2 * n + 3 \<le> 1023"
    and p: "fin_pos n (Finite p)" "is_float F p" "p \<noteq> 0"
    and q: "fin_pos n (Finite q)"
  shows "\<exists>v. arg_ad F (Finite p) (Finite q) = Finite v \<and> - 1 \<le> v \<and> v \<le> 1"
  unfolding arg_ad_def quot_ad_def
  by (rule clip_range [OF quotient_not_nan [OF A n p q]])

lemma arg_bd_range:
  assumes A: "float_arith F" and n: "2 * n + 3 \<le> 1023"
    and p: "fin_pos n (Finite p)"
    and q: "fin_pos n (Finite q)" "is_float F q" "q \<noteq> 0"
  shows "\<exists>v. arg_bd F (Finite p) (Finite q) = Finite v \<and> - 1 \<le> v \<and> v \<le> 1"
  unfolding arg_bd_def quot_bd_def
  by (rule clip_range [OF quotient_not_nan [OF A n q p]])

text \<open>Twice the inverse cosine of a value in range: a float between \<open>0\<close> and \<open>2 \<pi>\<close>.\<close>

lemma angle_range:
  assumes A: "float_arith F" and v: "- 1 \<le> v" "v \<le> 1"
  shows "fl_arccos F (Finite v) = Finite (lib_arccos F v)
       \<and> fl_mul F (Finite 2) (fl_arccos F (Finite v)) = Finite (2 * lib_arccos F v)
       \<and> 0 \<le> 2 * lib_arccos F v \<and> 2 * lib_arccos F v \<le> 2 * pi"
proof -
  from lib_arccos_range [OF A v] have r: "0 \<le> lib_arccos F v" "lib_arccos F v \<le> pi"
      "is_float F (lib_arccos F v)"
    by simp_all
  have "\<bar>lib_arccos F v\<bar> \<le> 4"
    using r(1,2) pi_less_4 by simp
  then have "\<bar>lib_arccos F v\<bar> \<le> 2 ^ 1022"
    using four_le by (rule order_trans)
  from rnd_double [OF A r(3) this] r(1,2) v show ?thesis
    by simp
qed

lemma segment_fl_pos:
  assumes A: "float_arith F" and n: "2 * n + 4 \<le> 1023"
    and r: "fin_pos n (Finite p)" and c: "0 \<le> c" "c \<le> 2 * pi"
  shows "fin_pos (2 * n + 4) (segment_fl F (Finite p) (Finite c))"
proof -
  have pp: "fin_pos (n + n) (np_pow2 F (Finite p))"
    using n r by (intro np_pow2_pos [OF A]) simp_all
  have s: "lib_sin F c \<le> c" "\<bar>lib_sin F c\<bar> \<le> 1"
    using lib_sin_le [OF A c(1)] lib_sin_abs [OF A] by simp_all
  have "0 \<le> c - lib_sin F c"
    using s(1) by simp
  moreover have "c - lib_sin F c \<le> 2 ^ 4"
    using s(2) c(2) pi_less_4 by simp
  ultimately have "fin_pos 4 (rnd F (c - lib_sin F c))"
    by (intro rnd_fin_pos [OF A]) simp_all
  then have d: "fin_pos 4 (fl_sub F (Finite c) (fl_sin F (Finite c)))"
    by simp
  have "n + n + 4 \<le> 1023"
    using n by linarith
  then have "fin_pos (n + n + 4) (fl_mul F (np_pow2 F (Finite p))
                                      (fl_sub F (Finite c) (fl_sin F (Finite c))))"
    by (rule fl_mul_pos [OF A pp d])
  moreover have "n + n + 4 = 2 * n + 4"
    by linarith
  ultimately show ?thesis
    unfolding segment_fl_def by (simp only:)
qed

lemma half_pos:
  assumes A: "float_arith F" and n: "n \<le> 1023" and a: "fin_pos n a"
  shows "fin_pos n (fl_mul F (Finite (1 / 2)) a)"
proof -
  from a obtain v where v: "a = Finite v" "0 \<le> v" "v \<le> 2 ^ n"
    by (auto simp: fin_pos_def)
  then have "0 \<le> 1 / 2 * v" "1 / 2 * v \<le> 2 ^ n"
    by simp_all
  from rnd_fin_pos [OF A n this] v(1) show ?thesis
    by simp
qed

lemma geometry_fl:
  assumes A: "float_arith F" and x: "\<bar>x\<bar> \<le> 2 ^ 500" and y: "\<bar>y\<bar> \<le> 2 ^ 500"
  shows "\<exists>p q a b v.
           r1_fl F x y = Inr (Finite p) \<and> r2_fl F x y = Inr (Finite q)
         \<and> (p \<noteq> 0 \<longrightarrow>
              (\<exists>u. arg_ad F (Finite p) (Finite q) = Finite u \<and> - 1 \<le> u \<and> u \<le> 1
                 \<and> fl_arccos F (arg_ad F (Finite p) (Finite q)) = Finite (lib_arccos F u)
                 \<and> a = 2 * lib_arccos F u))
         \<and> (q \<noteq> 0 \<longrightarrow>
              (\<exists>u. arg_bd F (Finite p) (Finite q) = Finite u \<and> - 1 \<le> u \<and> u \<le> 1
                 \<and> fl_arccos F (arg_bd F (Finite p) (Finite q)) = Finite (lib_arccos F u)
                 \<and> b = 2 * lib_arccos F u))
         \<and> c_ad_fl F x y = Inr (Finite a) \<and> 0 \<le> a \<and> a \<le> 2 * pi
         \<and> c_bd_fl F x y = Inr (Finite b) \<and> 0 \<le> b \<and> b \<le> 2 * pi
         \<and> fin_pos 1008 (segment_fl F (Finite p) (Finite a))
         \<and> fin_pos 1008 (segment_fl F (Finite q) (Finite b))
         \<and> intersection_area_fl F x y = Inr (Finite v) \<and> 0 \<le> v"
proof -
  from radii_fl [OF A _ x y] obtain p q where
    r: "r1_fl F x y = Inr (Finite p)" "r2_fl F x y = Inr (Finite q)"
       "fin_pos 501 (Finite p)" "fin_pos 502 (Finite q)" "is_float F p" "is_float F q"
    by auto
  have p: "fin_pos 502 (Finite p)"
    by (rule fin_pos_mono [OF r(3)]) simp
  define a where "a = (if p = 0 then 0 else 2 * lib_arccos F (SOME u. arg_ad F (Finite p) (Finite q) = Finite u))"
  define b where "b = (if q = 0 then 0 else 2 * lib_arccos F (SOME u. arg_bd F (Finite p) (Finite q) = Finite u))"
  have ad: "\<exists>u. arg_ad F (Finite p) (Finite q) = Finite u \<and> - 1 \<le> u \<and> u \<le> 1
                 \<and> fl_arccos F (arg_ad F (Finite p) (Finite q)) = Finite (lib_arccos F u)
                 \<and> fl_mul F (Finite 2) (fl_arccos F (arg_ad F (Finite p) (Finite q))) = Finite a
                 \<and> a = 2 * lib_arccos F u \<and> 0 \<le> a \<and> a \<le> 2 * pi" if "p \<noteq> 0"
  proof -
    from arg_ad_range [OF A _ p r(5) that r(4)] obtain u where
      u: "arg_ad F (Finite p) (Finite q) = Finite u" "- 1 \<le> u" "u \<le> 1"
      by auto
    have "a = 2 * lib_arccos F u"
      using that by (simp add: a_def u(1))
    with angle_range [OF A u(2,3)] u show ?thesis
      by simp
  qed
  have bd: "\<exists>u. arg_bd F (Finite p) (Finite q) = Finite u \<and> - 1 \<le> u \<and> u \<le> 1
                 \<and> fl_arccos F (arg_bd F (Finite p) (Finite q)) = Finite (lib_arccos F u)
                 \<and> fl_mul F (Finite 2) (fl_arccos F (arg_bd F (Finite p) (Finite q))) = Finite b
                 \<and> b = 2 * lib_arccos F u \<and> 0 \<le> b \<and> b \<le> 2 * pi" if "q \<noteq> 0"
  proof -
    from arg_bd_range [OF A _ p r(4) r(6) that] obtain u where
      u: "arg_bd F (Finite p) (Finite q) = Finite u" "- 1 \<le> u" "u \<le> 1"
      by auto
    have "b = 2 * lib_arccos F u"
      using that by (simp add: b_def u(1))
    with angle_range [OF A u(2,3)] u show ?thesis
      by simp
  qed
  have a0: "p = 0 \<Longrightarrow> a = 0" and b0: "q = 0 \<Longrightarrow> b = 0"
    by (simp_all add: a_def b_def)
  have ca: "c_ad_fl F x y = Inr (Finite a)"
    using ad a0 by (cases "p = 0") (auto simp: c_ad_fl_def r)
  have cb: "c_bd_fl F x y = Inr (Finite b)"
    using bd b0 by (cases "q = 0") (auto simp: c_bd_fl_def r)
  have ar: "0 \<le> a" "a \<le> 2 * pi"
    using ad a0 by (cases "p = 0"; auto)+
  have br: "0 \<le> b" "b \<le> 2 * pi"
    using bd b0 by (cases "q = 0"; auto)+
  have sa: "fin_pos 1008 (segment_fl F (Finite p) (Finite a))"
    using segment_fl_pos [OF A _ p ar, simplified] by simp
  have sb: "fin_pos 1008 (segment_fl F (Finite q) (Finite b))"
    using segment_fl_pos [OF A _ r(4) br, simplified] by simp
  have "fin_pos (Suc 1008) (fl_add F (segment_fl F (Finite p) (Finite a))
                                     (segment_fl F (Finite q) (Finite b)))"
    by (intro fl_add_pos [OF A sa sb]) simp
  then have "fin_pos (Suc 1008) (fl_mul F (Finite (1 / 2))
                (fl_add F (segment_fl F (Finite p) (Finite a))
                          (segment_fl F (Finite q) (Finite b))))"
    by (intro half_pos [OF A]) simp_all
  then obtain w where w: "fl_mul F (Finite (1 / 2))
                (fl_add F (segment_fl F (Finite p) (Finite a))
                          (segment_fl F (Finite q) (Finite b))) = Finite w" "0 \<le> w"
    by (auto simp: fin_pos_def)
  define v where "v = (if p = 0 \<or> q = 0 then 0 else w)"
  have ia: "intersection_area_fl F x y = Inr (Finite v)"
    by (simp only: intersection_area_fl_def r ca cb sum.case w v_def npfloat.inject
          split: if_splits) simp
  have "0 \<le> v"
    using w(2) by (simp add: v_def)
  with r(1,2) ad bd ca cb ar br sa sb ia show ?thesis
    by blast
qed

subsection \<open>The exact arithmetic\<close>

text \<open>The arithmetic without error meets the assumptions, and on it the rounded reading
  of the geometry is the exact one.\<close>

lemma float_arith_exact: "float_arith exact_ops"
  unfolding float_arith_def rounding_ok_def library_ok_def exact_ops_def
  by (auto simp: arccos_lbound arccos_ubound sin_x_le_x power_even_eq power2_le_iff_abs_le
        intro: power_mono)

lemma exact_sel:
  "rnd exact_ops = Finite" "lib_sin exact_ops = sin" "lib_arccos exact_ops = arccos"
  "lib_pow2 exact_ops = (\<lambda>x. Finite (x\<^sup>2))"
  by (simp_all add: exact_ops_def)

lemma exact_add: "fl_add exact_ops a b = np_add a b"
  by (cases a; cases b) (simp_all add: exact_sel)

lemma exact_sub: "fl_sub exact_ops a b = np_sub a b"
  by (cases a; cases b) (simp_all add: exact_sel np_sub_def)

lemma exact_mul: "fl_mul exact_ops a b = np_mul a b"
  by (cases a; cases b) (simp_all add: exact_sel)

lemma exact_div: "fl_div exact_ops (Finite a) (Finite b) = np_divide a b"
  by (simp add: exact_sel np_divide_def)

lemma exact_arccos: "fl_arccos exact_ops a = np_arccos a"
  by (cases a) (simp_all add: exact_sel)

lemma exact_sin: "fl_sin exact_ops a = np_sin a"
  by (cases a) (simp_all add: exact_sel)

lemma exact_radii:
  "r1_fl exact_ops x y = Inr (Finite (r1 x y))" "r2_fl exact_ops x y = Inr (Finite (r2 x y))"
  by (simp_all add: r1_fl_def r2_fl_def exact_sel r1_def r2_def not_less)

lemma exact_c_ad: "c_ad_fl exact_ops x y = Inr (c_ad x y)"
  by (simp add: c_ad_fl_def exact_radii c_ad_def c_ad_arg_def arg_ad_def quot_ad_def Let_def
        exact_add exact_sub exact_mul exact_div exact_arccos exact_sel np_sub_def np_divide_def
        power2_eq_square)

lemma exact_c_bd: "c_bd_fl exact_ops x y = Inr (c_bd x y)"
  by (simp add: c_bd_fl_def exact_radii c_bd_def c_bd_arg_def arg_bd_def quot_bd_def Let_def
        exact_add exact_sub exact_mul exact_div exact_arccos exact_sel np_sub_def np_divide_def
        power2_eq_square)

lemma exact_intersection_area: "intersection_area_fl exact_ops x y = Inr (intersection_area x y)"
  by (simp add: intersection_area_fl_def exact_radii exact_c_ad exact_c_bd intersection_area_def
        segment_fl_def Let_def exact_add exact_sub exact_mul exact_sin exact_sel np_sub_def
        power2_eq_square)

subsection \<open>The coarse arithmetic\<close>

lemma quarter_down_le: "quarter_down r \<le> r"
  unfolding quarter_down_def by linarith

lemma quarter_down_nonneg: "0 \<le> r \<Longrightarrow> 0 \<le> quarter_down r"
  unfolding quarter_down_def by simp

lemma quarter_down_int: "quarter_down (of_int k / 4) = of_int k / 4"
  by (simp add: quarter_down_def)

lemma quarter_down_idem: "quarter_down (quarter_down r) = quarter_down r"
  unfolding quarter_down_def [of r] by (rule quarter_down_int)

lemma quarter_down_double: "quarter_down (2 * quarter_down r) = 2 * quarter_down r"
proof -
  have "2 * quarter_down r = of_int (2 * \<lfloor>4 * r\<rfloor>) / 4"
    by (simp add: quarter_down_def)
  then show ?thesis
    by (simp only: quarter_down_int)
qed

lemma quarter_down_lower:
  assumes "- (2 ^ n) \<le> r"
  shows "- (2 ^ n) \<le> quarter_down r"
proof -
  have "of_int (- (4 * 2 ^ n)) \<le> 4 * r"
    using assms by simp
  then have "- (4 * 2 ^ n) \<le> \<lfloor>4 * r\<rfloor>"
    by (simp only: le_floor_iff)
  then have "of_int (- (4 * 2 ^ n)) \<le> (of_int \<lfloor>4 * r\<rfloor> :: real)"
    by (simp only: of_int_le_iff)
  then show ?thesis
    by (simp add: quarter_down_def)
qed

lemma quarter_down_abs: "\<bar>r\<bar> \<le> 2 ^ n \<Longrightarrow> \<bar>quarter_down r\<bar> \<le> 2 ^ n"
  using quarter_down_le [of r] quarter_down_lower [of n r] by (simp add: abs_le_iff)

lemma float_arith_coarse: "float_arith coarse_ops"
proof -
  have "rounding_ok (\<lambda>r. Finite (quarter_down r))"
    unfolding rounding_ok_def
  proof (intro conjI allI impI)
    fix r v :: real
    assume "Finite (quarter_down r) = Finite v \<and> \<bar>v\<bar> \<le> 2 ^ 1022"
    then have "v = quarter_down r"
      by simp
    then show "Finite (quarter_down (2 * v)) = Finite (2 * v)"
      by (simp only: quarter_down_double)
  next
    fix r :: real and n :: nat
    assume "n \<le> 1023 \<and> \<bar>r\<bar> \<le> 2 ^ n"
    then show "\<exists>v. Finite (quarter_down r) = Finite v \<and> \<bar>v\<bar> \<le> 2 ^ n"
      by (simp add: quarter_down_abs)
  next
    fix r v :: real
    assume "r \<le> 0" "Finite (quarter_down r) = Finite v"
    then show "v \<le> 0"
      using quarter_down_le [of r] by simp
  qed (auto simp: quarter_down_nonneg)
  moreover have "library_ok coarse_ops"
  proof -
    have p: "\<forall>x n. 2 * n \<le> 1023 \<and> \<bar>x\<bar> \<le> 2 ^ n \<longrightarrow>
               (\<exists>v. lib_pow2 coarse_ops x = Finite v \<and> 0 \<le> v \<and> v \<le> 2 ^ (2 * n))"
    proof (intro allI impI)
      fix x :: real and n :: nat
      assume "2 * n \<le> 1023 \<and> \<bar>x\<bar> \<le> 2 ^ n"
      then have "x\<^sup>2 \<le> (2 ^ n)\<^sup>2"
        by (simp add: power2_le_iff_abs_le)
      then have "quarter_down (x\<^sup>2) \<le> 2 ^ (2 * n)"
        using quarter_down_le [of "x\<^sup>2"] by (simp add: power_even_eq)
      then show "\<exists>v. lib_pow2 coarse_ops x = Finite v \<and> 0 \<le> v \<and> v \<le> 2 ^ (2 * n)"
        by (simp add: coarse_ops_def quarter_down_nonneg)
    qed
    have a: "\<forall>v. - 1 \<le> v \<and> v \<le> 1 \<longrightarrow>
               0 \<le> lib_arccos coarse_ops v \<and> lib_arccos coarse_ops v \<le> pi
               \<and> rnd coarse_ops (lib_arccos coarse_ops v) = Finite (lib_arccos coarse_ops v)"
    proof (intro allI impI)
      fix v :: real
      assume v: "- 1 \<le> v \<and> v \<le> 1"
      then have "0 \<le> arccos v" "arccos v \<le> pi"
        by (simp_all add: arccos_lbound arccos_ubound)
      then show "0 \<le> lib_arccos coarse_ops v \<and> lib_arccos coarse_ops v \<le> pi
                 \<and> rnd coarse_ops (lib_arccos coarse_ops v) = Finite (lib_arccos coarse_ops v)"
        using quarter_down_le [of "arccos v"]
        by (simp add: coarse_ops_def quarter_down_nonneg quarter_down_idem)
    qed
    have s: "\<forall>t. 0 \<le> t \<longrightarrow> lib_sin coarse_ops t \<le> t" "\<forall>t. \<bar>lib_sin coarse_ops t\<bar> \<le> 1"
      by (simp_all add: coarse_ops_def sin_x_le_x)
    from p a s show ?thesis
      unfolding library_ok_def by blast
  qed
  ultimately show ?thesis
    by (simp add: float_arith_def coarse_ops_def)
qed

lemma coarse_sel:
  "rnd coarse_ops = (\<lambda>r. Finite (quarter_down r))"
  "lib_pow2 coarse_ops = (\<lambda>x. Finite (quarter_down (x\<^sup>2)))"
  by (simp_all add: coarse_ops_def)

text \<open>At \<open>(0.625, 0)\<close> this arithmetic computes the radii \<open>0.5\<close> and \<open>0\<close> and the quotient
  \<open>1.25\<close>: without the clip the inverse cosine would answer \<open>nan\<close>.\<close>

lemma clip_is_needed:
  "float_arith coarse_ops
   \<and> r1_fl coarse_ops (5 / 8) 0 = Inr (Finite (1 / 2))
   \<and> r2_fl coarse_ops (5 / 8) 0 = Inr (Finite 0)
   \<and> quot_ad coarse_ops (Finite (1 / 2)) (Finite 0) = Finite (5 / 4)
   \<and> fl_arccos coarse_ops (quot_ad coarse_ops (Finite (1 / 2)) (Finite 0)) = NaN
   \<and> arg_ad coarse_ops (Finite (1 / 2)) (Finite 0) = Finite 1"
proof -
  have q: "quarter_down 0 = 0" "quarter_down (25 / 64) = 1 / 4" "quarter_down (1 / 4) = 1 / 4"
      "quarter_down (1 / 2) = 1 / 2" "quarter_down (3 / 8) = 1 / 4" "quarter_down (1 / 16) = 0"
      "quarter_down (5 / 4) = 5 / 4" "quarter_down 1 = 1"
    by (simp_all add: quarter_down_def)
  have s: "sqrt (1 / 4) = 1 / 2"
    by (simp add: real_sqrt_divide)
  have r1: "r1_fl coarse_ops (5 / 8) 0 = Inr (Finite (1 / 2))"
    by (simp add: r1_fl_def coarse_sel power2_eq_square q s)
  have r2: "r2_fl coarse_ops (5 / 8) 0 = Inr (Finite 0)"
    by (simp add: r2_fl_def coarse_sel power2_eq_square q)
  have qu: "quot_ad coarse_ops (Finite (1 / 2)) (Finite 0) = Finite (5 / 4)"
    by (simp add: quot_ad_def coarse_sel power2_eq_square q)
  from float_arith_coarse r1 r2 qu show ?thesis
    by (simp add: arg_ad_def)
qed

subsection \<open>Overflow in binary64\<close>

text \<open>A real number of magnitude \<open>2 ^ 1025\<close> or more rounds to an infinity, so Python's
  \<open>x**2\<close> raises at \<open>x = 2 ^ 600\<close>.\<close>

lemma rhe_cases: "round_half_even q = \<lfloor>q\<rfloor> \<or> round_half_even q = \<lfloor>q\<rfloor> + 1"
  by (simp add: round_half_even_def Let_def)

lemma rhe_lower: "q - 1 / 2 \<le> of_int (round_half_even q)"
  unfolding round_half_even_def Let_def by (auto split: if_splits) linarith+

lemma rhe_upper: "of_int (round_half_even q) \<le> q + 1 / 2"
  unfolding round_half_even_def Let_def by (auto split: if_splits) linarith+

lemma rhe_int: "round_half_even (of_int n) = n"
  by (simp add: round_half_even_def Let_def)

lemma floor_log_bounds:
  assumes "0 < r"
  shows "2 powr of_int \<lfloor>log 2 r\<rfloor> \<le> r" "r < 2 powr (of_int \<lfloor>log 2 r\<rfloor> + 1)"
  using floor_log_eq_powr_iff [of r 2 "\<lfloor>log 2 r\<rfloor>"] assms by simp_all

lemma round64_overflow:
  assumes "2 ^ 1025 \<le> r"
  shows "round64 r = PInf"
proof -
  have pos: "0 < r"
    using assms by (rule less_le_trans [rotated]) simp
  define L where "L = \<lfloor>log 2 r\<rfloor>"
  have p: "(2 :: real) powr 1025 = 2 ^ 1025"
    by (rule powr_numeral) simp
  have "2 powr 1025 \<le> r"
    unfolding p by (rule assms)
  moreover have "(1 :: real) < 2"
    by simp
  ultimately have "1025 \<le> log 2 r"
    using pos by (simp only: le_log_iff)
  then have L: "1025 \<le> L"
    unfolding L_def by linarith
  have "\<bar>r\<bar> = r"
    using pos by simp
  then have "ulp_exp r = max (L - 52) (- 1074)"
    by (simp only: ulp_exp_def L_def)
  with L have e: "ulp_exp r = L - 52"
    by linarith
  have "(2 :: real) powr of_int (L - 52) \<le> 2 powr of_int L"
    by (intro powr_mono) simp_all
  also have "\<dots> \<le> r"
    unfolding L_def by (rule floor_log_bounds(1) [OF pos])
  finally have u: "2 powr of_int (L - 52) \<le> r" .
  define m where "m = round_half_even (r / 2 powr of_int (L - 52))"
  have "r / 2 powr of_int (L - 52) - 1 / 2 \<le> of_int m"
    unfolding m_def by (rule rhe_lower)
  then have "(r / 2 powr of_int (L - 52) - 1 / 2) * 2 powr of_int (L - 52)
               \<le> of_int m * 2 powr of_int (L - 52)"
    by (intro mult_right_mono) simp_all
  then have "r - 2 powr of_int (L - 52) / 2 \<le> of_int m * 2 powr of_int (L - 52)"
    by (simp add: algebra_simps)
  with u have "r / 2 \<le> of_int m * 2 powr of_int (L - 52)"
    by linarith
  moreover have "(2 :: real) ^ 1024 \<le> r / 2"
    using assms by simp
  ultimately have "(2 :: real) ^ 1024 \<le> \<bar>of_int m * 2 powr of_int (L - 52)\<bar>"
    by linarith
  then show ?thesis
    using pos by (simp add: round64_def Let_def e m_def)
qed

lemma pow2_overflow: "py_pow2 (binary64 s a) (Finite (2 ^ 600)) = Inl OverflowError"
proof -
  have "(2 :: real) ^ 1025 \<le> 2 ^ 1200"
    by (rule pow2_mono) simp
  also have "(2 :: real) ^ 1200 = (2 ^ 600)\<^sup>2"
    by (simp only: power_even_eq [symmetric]) simp
  finally have "round64 ((2 ^ 600)\<^sup>2) = PInf"
    by (rule round64_overflow)
  then show ?thesis
    by (simp add: binary64_def)
qed

subsection \<open>The clip in front of the inverse cosine\<close>

text \<open>
  Claim C6, as the code has it. Let the arithmetic be any that meets the assumptions, and
  let \<open>|x|\<close> and \<open>|y|\<close> be at most \<open>2 ^ 500\<close>. Then \<open>r1\<close> and \<open>r2\<close> return finite radii.
  When the radius computed by \<open>r1\<close> is not zero, the value that \<open>c_ad\<close> hands to \<open>arccos\<close>,
  the clipped quotient, is a number in \<open>[-1, 1]\<close> whatever error the quotient has suffered,
  \<open>arccos\<close> answers with a number and not with \<open>nan\<close>, and \<open>c_ad\<close> returns twice that
  number; the same holds of \<open>c_bd\<close> and the radius computed by \<open>r2\<close>. Both functions return
  a finite angle at every such input, the radius zero or not.
\<close>

theorem clip_guards_arccos:
  assumes "float_arith F" and "\<bar>x\<bar> \<le> 2 ^ 500" and "\<bar>y\<bar> \<le> 2 ^ 500"
  shows "\<exists>p q. r1_fl F x y = Inr (Finite p) \<and> r2_fl F x y = Inr (Finite q)
         \<and> (p \<noteq> 0 \<longrightarrow>
              (\<exists>u. arg_ad F (Finite p) (Finite q) = Finite u \<and> - 1 \<le> u \<and> u \<le> 1
                 \<and> fl_arccos F (arg_ad F (Finite p) (Finite q)) = Finite (lib_arccos F u)
                 \<and> c_ad_fl F x y = Inr (Finite (2 * lib_arccos F u))))
         \<and> (q \<noteq> 0 \<longrightarrow>
              (\<exists>u. arg_bd F (Finite p) (Finite q) = Finite u \<and> - 1 \<le> u \<and> u \<le> 1
                 \<and> fl_arccos F (arg_bd F (Finite p) (Finite q)) = Finite (lib_arccos F u)
                 \<and> c_bd_fl F x y = Inr (Finite (2 * lib_arccos F u))))
         \<and> (\<exists>a b. c_ad_fl F x y = Inr (Finite a) \<and> c_bd_fl F x y = Inr (Finite b))"
proof -
  from geometry_fl [OF assms] obtain p q a b where
    g: "r1_fl F x y = Inr (Finite p)" "r2_fl F x y = Inr (Finite q)"
       "p \<noteq> 0 \<longrightarrow>
          (\<exists>u. arg_ad F (Finite p) (Finite q) = Finite u \<and> - 1 \<le> u \<and> u \<le> 1
             \<and> fl_arccos F (arg_ad F (Finite p) (Finite q)) = Finite (lib_arccos F u)
             \<and> a = 2 * lib_arccos F u)"
       "q \<noteq> 0 \<longrightarrow>
          (\<exists>u. arg_bd F (Finite p) (Finite q) = Finite u \<and> - 1 \<le> u \<and> u \<le> 1
             \<and> fl_arccos F (arg_bd F (Finite p) (Finite q)) = Finite (lib_arccos F u)
             \<and> b = 2 * lib_arccos F u)"
       "c_ad_fl F x y = Inr (Finite a)" "c_bd_fl F x y = Inr (Finite b)"
    by blast
  show ?thesis
  proof (intro exI conjI)
    show "r1_fl F x y = Inr (Finite p)" "r2_fl F x y = Inr (Finite q)"
      by (fact g)+
    show "p \<noteq> 0 \<longrightarrow>
          (\<exists>u. arg_ad F (Finite p) (Finite q) = Finite u \<and> - 1 \<le> u \<and> u \<le> 1
             \<and> fl_arccos F (arg_ad F (Finite p) (Finite q)) = Finite (lib_arccos F u)
             \<and> c_ad_fl F x y = Inr (Finite (2 * lib_arccos F u)))"
      using g(3,5) by auto
    show "q \<noteq> 0 \<longrightarrow>
          (\<exists>u. arg_bd F (Finite p) (Finite q) = Finite u \<and> - 1 \<le> u \<and> u \<le> 1
             \<and> fl_arccos F (arg_bd F (Finite p) (Finite q)) = Finite (lib_arccos F u)
             \<and> c_bd_fl F x y = Inr (Finite (2 * lib_arccos F u)))"
      using g(4,6) by auto
    show "c_ad_fl F x y = Inr (Finite a)" "c_bd_fl F x y = Inr (Finite b)"
      by (fact g)+
  qed
qed

text \<open>The statement at \<open>(1, 0)\<close>, where the quotient of \<open>c_ad\<close> is the bound \<open>1\<close> itself,
  and at \<open>(0, 0)\<close>, where that of \<open>c_bd\<close> is.\<close>

theorem clip_guards_arccos_witness:
  "float_arith exact_ops \<and> \<bar>1 :: real\<bar> \<le> 2 ^ 500 \<and> \<bar>0 :: real\<bar> \<le> 2 ^ 500
   \<and> r1_fl exact_ops 1 0 = Inr (Finite 1) \<and> r2_fl exact_ops 1 0 = Inr (Finite 0)
   \<and> arg_ad exact_ops (Finite 1) (Finite 0) = Finite 1
   \<and> c_ad_fl exact_ops 1 0 = Inr (Finite 0)
   \<and> r1_fl exact_ops 0 0 = Inr (Finite 0) \<and> r2_fl exact_ops 0 0 = Inr (Finite 1)
   \<and> arg_bd exact_ops (Finite 0) (Finite 1) = Finite 1
   \<and> c_bd_fl exact_ops 0 0 = Inr (Finite 0)"
proof -
  have one: "\<bar>1 :: real\<bar> \<le> 2 ^ 500" and zero: "\<bar>0 :: real\<bar> \<le> 2 ^ 500"
    by (simp_all add: one_le_power)
  have r: "r1 1 0 = 1" "r2 1 0 = 0" "r1 0 0 = 0" "r2 0 0 = 1"
    by (simp_all add: r1_def r2_def)
  have a: "arg_ad exact_ops (Finite 1) (Finite 0) = Finite 1"
      "arg_bd exact_ops (Finite 0) (Finite 1) = Finite 1"
    by (simp_all add: arg_ad_def quot_ad_def arg_bd_def quot_bd_def exact_sel)
  from clip_guards_arccos [OF float_arith_exact one zero]
       clip_guards_arccos [OF float_arith_exact zero zero]
  show ?thesis
    using float_arith_exact one zero a
    by (simp add: exact_radii r exact_sel)
qed

text \<open>Without the bound on the input the claim fails: in binary64 the square of
  \<open>2 ^ 600\<close> overflows, \<open>x**2\<close> in \<open>r1\<close> raises \<open>OverflowError\<close>, and \<open>c_ad\<close> returns no
  angle.\<close>

theorem c_ad_overflow: "c_ad_fl (binary64 sin arccos) (2 ^ 600) 0 = Inl OverflowError"
  by (simp only: c_ad_fl_def r1_fl_def pow2_overflow sum.case)

subsection \<open>The sign of the intersection area\<close>

text \<open>
  Claim C9, as the code has it. Let the arithmetic be any that meets the assumptions, and
  let \<open>|x|\<close> and \<open>|y|\<close> be at most \<open>2 ^ 500\<close>, the point inside the canonical region or
  not. Then both chord angles are numbers between \<open>0\<close> and \<open>2 \<pi>\<close>, both summands
  \<open>rr**2 * (c - sin c)\<close> of the formula are computed as non-negative numbers, and
  \<open>intersection_area\<close> returns a finite number that is not negative.
\<close>

theorem intersection_area_nonneg_rounded:
  assumes "float_arith F" and "\<bar>x\<bar> \<le> 2 ^ 500" and "\<bar>y\<bar> \<le> 2 ^ 500"
  shows "\<exists>p q a b s t v.
           r1_fl F x y = Inr (Finite p) \<and> r2_fl F x y = Inr (Finite q)
         \<and> c_ad_fl F x y = Inr (Finite a) \<and> 0 \<le> a \<and> a \<le> 2 * pi
         \<and> c_bd_fl F x y = Inr (Finite b) \<and> 0 \<le> b \<and> b \<le> 2 * pi
         \<and> segment_fl F (Finite p) (Finite a) = Finite s \<and> 0 \<le> s
         \<and> segment_fl F (Finite q) (Finite b) = Finite t \<and> 0 \<le> t
         \<and> intersection_area_fl F x y = Inr (Finite v) \<and> 0 \<le> v"
proof -
  from geometry_fl [OF assms] obtain p q a b v where
    g: "r1_fl F x y = Inr (Finite p)" "r2_fl F x y = Inr (Finite q)"
       "c_ad_fl F x y = Inr (Finite a)" "0 \<le> a" "a \<le> 2 * pi"
       "c_bd_fl F x y = Inr (Finite b)" "0 \<le> b" "b \<le> 2 * pi"
       "fin_pos 1008 (segment_fl F (Finite p) (Finite a))"
       "fin_pos 1008 (segment_fl F (Finite q) (Finite b))"
       "intersection_area_fl F x y = Inr (Finite v)" "0 \<le> v"
    by blast
  from g(9) obtain s where s: "segment_fl F (Finite p) (Finite a) = Finite s" "0 \<le> s"
    by (auto simp: fin_pos_def)
  from g(10) obtain t where t: "segment_fl F (Finite q) (Finite b) = Finite t" "0 \<le> t"
    by (auto simp: fin_pos_def)
  from g s t show ?thesis
    by blast
qed

text \<open>The statement at \<open>(2, -3)\<close>, a point outside the canonical region.\<close>

theorem intersection_area_nonneg_rounded_witness:
  "float_arith exact_ops \<and> \<bar>2 :: real\<bar> \<le> 2 ^ 500 \<and> \<bar>- 3 :: real\<bar> \<le> 2 ^ 500
   \<and> (\<exists>v. intersection_area_fl exact_ops 2 (- 3) = Inr (Finite v) \<and> 0 \<le> v)"
proof -
  have "(2 :: real) ^ 2 \<le> 2 ^ 500"
    by (rule pow2_mono) simp
  then have b: "\<bar>2 :: real\<bar> \<le> 2 ^ 500" "\<bar>- 3 :: real\<bar> \<le> 2 ^ 500"
    by simp_all
  from intersection_area_nonneg_rounded [OF float_arith_exact b] float_arith_exact b
  show ?thesis
    by blast
qed

text \<open>Without the bound on the input the claim fails: at \<open>(2 ^ 600, 0)\<close> the function
  raises \<open>OverflowError\<close> in \<open>r1\<close> and returns no area.\<close>

theorem intersection_area_overflow:
  "intersection_area_fl (binary64 sin arccos) (2 ^ 600) 0 = Inl OverflowError"
  by (simp only: intersection_area_fl_def r1_fl_def pow2_overflow sum.case)

subsection \<open>The success fraction\<close>

lemma mask_fl_Nil: "mask_fl F [] red = []" "mask_fl F blue [] = []"
  by (simp_all add: mask_fl_def)

lemma mask_fl_Cons: "mask_fl F (b # blue) (r # red) = retained_fl F b r # mask_fl F blue red"
  by (simp add: mask_fl_def)

lemma a_vals_fl_Nil: "a_vals_fl F [] red = []" "a_vals_fl F blue [] = []"
  by (simp_all add: a_vals_fl_def mask_fl_Nil select_Nil)

lemma a_vals_fl_Cons:
  "a_vals_fl F (b # blue) (r # red) =
     (if retained_fl F b r then a_val_fl F b r # a_vals_fl F blue red else a_vals_fl F blue red)"
  by (simp add: a_vals_fl_def Let_def mask_fl_Cons select_Cons)

lemma retained_pairs_fl_Cons:
  "retained_pairs_fl F (b # blue) (r # red) =
     (if retained_fl F b r then (b, r) # retained_pairs_fl F blue red
      else retained_pairs_fl F blue red)"
  by (simp add: retained_pairs_fl_def)

lemma retained_pairs_fl_Nil: "retained_pairs_fl F [] red = []" "retained_pairs_fl F blue [] = []"
  by (simp_all add: retained_pairs_fl_def)

lemma a_vals_fl_retained:
  "length blue = length red \<Longrightarrow>
   a_vals_fl F blue red = map (\<lambda>(b, r). a_val_fl F b r) (retained_pairs_fl F blue red)"
  by (induction blue red rule: list_induct2)
     (simp_all add: a_vals_fl_Nil a_vals_fl_Cons retained_pairs_fl_Cons, simp add: retained_pairs_fl_def)

lemma mask_fl_count:
  "length blue = length red \<Longrightarrow>
   length (filter id (mask_fl F blue red)) = length (retained_pairs_fl F blue red)"
  by (induction blue red rule: list_induct2)
     (simp_all add: mask_fl_Nil mask_fl_Cons retained_pairs_fl_Cons, simp add: retained_pairs_fl_def)

lemma successes_fl_retained:
  assumes "length blue = length red"
  shows "successes_fl F blue red = length (success_pairs_fl F blue red)"
proof -
  have "(\<lambda>a. np_ge a 0 \<and> np_le a 1) \<circ> (\<lambda>(b, r). a_val_fl F b r) =
        (\<lambda>(b, r). np_ge (a_val_fl F b r) 0 \<and> np_le (a_val_fl F b r) 1)"
    by (auto simp: fun_eq_iff)
  then show ?thesis
    by (simp add: successes_fl_def success_pairs_fl_def a_vals_fl_retained [OF assms] filter_map)
qed

text \<open>For a retained pair the difference of the \<open>x\<close> coordinates is not the float zero, and
  neither is the denominator.\<close>

lemma tolerance_pos:
  assumes A: "float_arith F" and b: "\<bar>bx\<bar> \<le> 2 ^ 500"
  shows "\<exists>t. fl_add F (rnd F (1 / 10 ^ 8)) (fl_mul F (rnd F (1 / 10 ^ 5)) (fl_abs (Finite bx))) = Finite t
             \<and> 0 \<le> t"
proof -
  have at: "fin_pos 0 (rnd F (1 / 10 ^ 8))" and rt: "fin_pos 0 (rnd F (1 / 10 ^ 5))"
    by (rule rnd_fin_pos [OF A]; simp)+
  have "fin_pos 500 (fl_abs (Finite bx))"
    using b by (simp add: fin_pos_def)
  then have "fin_pos (0 + 500) (fl_mul F (rnd F (1 / 10 ^ 5)) (fl_abs (Finite bx)))"
    by (intro fl_mul_pos [OF A rt]) simp_all
  then have m: "fin_pos 500 (fl_mul F (rnd F (1 / 10 ^ 5)) (fl_abs (Finite bx)))"
    by simp
  have "fin_pos 500 (rnd F (1 / 10 ^ 8))"
    by (rule fin_pos_mono [OF at]) simp
  then have "fin_pos (Suc 500) (fl_add F (rnd F (1 / 10 ^ 8))
                                  (fl_mul F (rnd F (1 / 10 ^ 5)) (fl_abs (Finite bx))))"
    by (intro fl_add_pos [OF A _ m]) simp_all
  then show ?thesis
    by (auto simp: fin_pos_def)
qed

lemma retained_fl_den:
  assumes A: "float_arith F" and r: "retained_fl F b r" and rb: "in_range b" "in_range r"
  shows "\<exists>d. a_den_fl F b r = Finite d \<and> d \<noteq> 0"
proof -
  have "fin_le 500 (Finite (fst r))" "fin_le 500 (Finite (fst b))"
    using rb by (simp_all add: fin_le_def in_range_def)
  then have "fin_le (Suc 500) (fl_sub F (Finite (fst r)) (Finite (fst b)))"
    by (intro fl_sub_le [OF A]) simp_all
  then obtain d where d: "fl_sub F (Finite (fst r)) (Finite (fst b)) = Finite d" "\<bar>d\<bar> \<le> 2 ^ Suc 500"
    by (auto simp: fin_le_def)
  from tolerance_pos [OF A] rb(1) obtain t where
    t: "fl_add F (rnd F (1 / 10 ^ 8)) (fl_mul F (rnd F (1 / 10 ^ 5)) (fl_abs (Finite (fst b)))) = Finite t"
       "0 \<le> t"
    by (auto simp: in_range_def)
  have "d \<noteq> 0"
  proof
    assume "d = 0"
    then have "isclose_fl F (fst r) (fst b) (rnd F (1 / 10 ^ 5)) (rnd F (1 / 10 ^ 8))"
      unfolding isclose_fl_def d t using t(2) by simp
    with r show False
      by (simp add: retained_fl_def)
  qed
  have "is_float F d"
    using d(1) by (auto simp: is_float_def)
  moreover have "\<bar>d\<bar> \<le> 2 ^ 1022"
    using d(2) pow2_mono [of "Suc 500" 1022] by linarith
  ultimately have "rnd F (2 * d) = Finite (2 * d)"
    by (rule rnd_double [OF A])
  then have "a_den_fl F b r = Finite (2 * d)"
    unfolding a_den_fl_def d by simp
  with \<open>d \<noteq> 0\<close> show ?thesis
    by simp
qed

lemma square_fl_pos:
  assumes A: "float_arith F" and v: "\<bar>v\<bar> \<le> 2 ^ 500"
  shows "fin_pos 1000 (square_fl F v)"
proof -
  have "fin_pos 500 (Finite \<bar>v\<bar>)"
    using v by (simp add: fin_pos_def)
  then have "fin_pos (500 + 500) (fl_mul F (Finite \<bar>v\<bar>) (Finite \<bar>v\<bar>))"
    by (intro fl_mul_pos [OF A]) simp_all
  then show ?thesis
    by (simp add: square_fl_def)
qed

lemma fl_add_le:
  assumes "float_arith F" "fin_le n a" "fin_le n b" "Suc n \<le> 1023"
  shows "fin_le (Suc n) (fl_add F a b)"
proof -
  from assms(2,3) obtain u v where uv: "a = Finite u" "\<bar>u\<bar> \<le> 2 ^ n" "b = Finite v" "\<bar>v\<bar> \<le> 2 ^ n"
    by (auto simp: fin_le_def)
  then have "\<bar>u + v\<bar> \<le> 2 ^ Suc n"
    by simp
  from rnd_fin_le [OF assms(1,4) this] uv show ?thesis
    by simp
qed

lemma a_num_fl_finite:
  assumes A: "float_arith F" and rb: "in_range b" "in_range r"
  shows "\<exists>n. a_num_fl F b r = Finite n"
proof -
  have s: "fin_le 1000 (square_fl F (fst r))" "fin_le 1000 (square_fl F (fst b))"
      "fin_le 1000 (square_fl F (snd r))" "fin_le 1000 (square_fl F (snd b))"
    using rb by (auto simp: in_range_def intro!: fin_pos_le square_fl_pos [OF A])
  have "fin_le (Suc 1000) (fl_sub F (square_fl F (fst r)) (square_fl F (fst b)))"
    by (intro fl_sub_le [OF A s(1,2)]) simp
  moreover have "fin_le (Suc 1000) (square_fl F (snd r))"
    by (rule fin_le_mono [OF s(3)]) simp
  ultimately have "fin_le (Suc (Suc 1000))
      (fl_add F (fl_sub F (square_fl F (fst r)) (square_fl F (fst b))) (square_fl F (snd r)))"
    by (intro fl_add_le [OF A]) simp_all
  moreover have "fin_le (Suc (Suc 1000)) (square_fl F (snd b))"
    by (rule fin_le_mono [OF s(4)]) simp
  ultimately have "fin_le (Suc (Suc (Suc 1000))) (a_num_fl F b r)"
    unfolding a_num_fl_def by (intro fl_sub_le [OF A]) simp_all
  then show ?thesis
    by (auto simp: fin_le_def)
qed

lemma retained_fl_quotient:
  assumes A: "float_arith F" and r: "retained_fl F b r" and rb: "in_range b" "in_range r"
  shows "\<exists>n d. a_num_fl F b r = Finite n \<and> a_den_fl F b r = Finite d \<and> d \<noteq> 0
               \<and> a_val_fl F b r = rnd F (n / d) \<and> a_val_fl F b r \<noteq> NaN"
proof -
  from a_num_fl_finite [OF A rb] obtain n where n: "a_num_fl F b r = Finite n"
    by blast
  from retained_fl_den [OF A r rb] obtain d where d: "a_den_fl F b r = Finite d" "d \<noteq> 0"
    by blast
  have "a_val_fl F b r = rnd F (n / d)"
    by (simp add: a_val_fl_def n d)
  with n d rnd_not_nan [OF A] show ?thesis
    by auto
qed

lemma exact_a_val:
  "fst r \<noteq> fst b \<Longrightarrow> a_val_fl exact_ops b r = Finite (a_formula b r)"
  by (simp add: a_val_fl_def a_num_fl_def a_den_fl_def square_fl_def exact_sel a_formula_def
        power2_eq_square)

lemma exact_retained: "retained_fl exact_ops b r = retained b r"
  by (simp add: retained_fl_def isclose_fl_def exact_sel retained_def np_isclose_def
        default_rtol_def)

text \<open>
  Claim C1. For blue and red points of equal number, \<open>a_vals\<close> holds for every retained
  pair, in order, the value \<open>a\<close> that float64 computes from the formula
  \<open>(x2\<^sup>2 - x1\<^sup>2 + y2\<^sup>2 - y1\<^sup>2) / (2 (x2 - x1))\<close>; \<open>successes\<close> counts the retained
  pairs whose computed \<open>a\<close> satisfies \<open>0 \<le> a \<le> 1\<close>, both bounds included; the returned
  value is the float64 quotient of the number of successes by the number of retained pairs,
  which is the rounded fraction when a pair is retained. When the arithmetic meets the
  assumptions and the coordinates are at most \<open>2 ^ 500\<close> in magnitude, the \<open>a\<close> of every
  retained pair is the rounded quotient of the computed numerator by the computed
  denominator, which is not zero, so that no \<open>a\<close> is \<open>nan\<close>.
\<close>

theorem pair_fraction_rounded:
  assumes "length blue = length red"
  shows "a_vals_fl F blue red = map (\<lambda>(b, r). a_val_fl F b r) (retained_pairs_fl F blue red)
       \<and> successes_fl F blue red = length (success_pairs_fl F blue red)
       \<and> probability_fl F blue red =
           fl_div F (Finite (real (length (success_pairs_fl F blue red))))
                    (Finite (real (length (retained_pairs_fl F blue red))))
       \<and> (retained_pairs_fl F blue red \<noteq> [] \<longrightarrow>
            probability_fl F blue red =
              rnd F (real (length (success_pairs_fl F blue red))
                     / real (length (retained_pairs_fl F blue red))))
       \<and> (float_arith F \<and> list_all in_range blue \<and> list_all in_range red \<longrightarrow>
            (\<forall>(b, r) \<in> set (retained_pairs_fl F blue red).
               \<exists>n d. a_num_fl F b r = Finite n \<and> a_den_fl F b r = Finite d \<and> d \<noteq> 0
                    \<and> a_val_fl F b r = rnd F (n / d) \<and> a_val_fl F b r \<noteq> NaN))"
proof -
  have s: "successes_fl F blue red = length (success_pairs_fl F blue red)"
    by (rule successes_fl_retained [OF assms])
  have p: "probability_fl F blue red =
           fl_div F (Finite (real (length (success_pairs_fl F blue red))))
                    (Finite (real (length (retained_pairs_fl F blue red))))"
    by (simp add: probability_fl_def s mask_fl_count [OF assms])
  have q: "retained_pairs_fl F blue red \<noteq> [] \<longrightarrow>
            probability_fl F blue red =
              rnd F (real (length (success_pairs_fl F blue red))
                     / real (length (retained_pairs_fl F blue red)))"
    unfolding p by simp
  have d: "float_arith F \<and> list_all in_range blue \<and> list_all in_range red \<longrightarrow>
            (\<forall>(b, r) \<in> set (retained_pairs_fl F blue red).
               \<exists>n d. a_num_fl F b r = Finite n \<and> a_den_fl F b r = Finite d \<and> d \<noteq> 0
                    \<and> a_val_fl F b r = rnd F (n / d) \<and> a_val_fl F b r \<noteq> NaN)"
  proof (intro impI ballI, elim conjE)
    fix br
    assume A: "float_arith F" and rng: "list_all in_range blue" "list_all in_range red"
      and m: "br \<in> set (retained_pairs_fl F blue red)"
    obtain b r where br: "br = (b, r)"
      by (cases br)
    from m br have "(b, r) \<in> set (zip blue red)" "retained_fl F b r"
      by (simp_all add: retained_pairs_fl_def)
    then have "b \<in> set blue" "r \<in> set red" "retained_fl F b r"
      by (auto dest: set_zip_leftD set_zip_rightD)
    with rng have "in_range b" "in_range r" "retained_fl F b r"
      by (auto simp: list_all_iff)
    from retained_fl_quotient [OF A this(3,1,2)] br
    show "case br of (b, r) \<Rightarrow>
            \<exists>n d. a_num_fl F b r = Finite n \<and> a_den_fl F b r = Finite d \<and> d \<noteq> 0
                 \<and> a_val_fl F b r = rnd F (n / d) \<and> a_val_fl F b r \<noteq> NaN"
      by simp
  qed
  from a_vals_fl_retained [OF assms] s p q d show ?thesis
    by blast
qed

text \<open>The statement on five pairs: one is dropped, of the four that are retained two
  succeed, with \<open>a = 0\<close> and \<open>a = 1\<close> on the bounds, and the returned value is \<open>0.5\<close>.\<close>

theorem pair_fraction_rounded_witness:
  "length dyadic_blue = length dyadic_red
   \<and> float_arith exact_ops \<and> list_all in_range dyadic_blue \<and> list_all in_range dyadic_red
   \<and> retained_pairs_fl exact_ops dyadic_blue dyadic_red \<noteq> []
   \<and> a_vals_fl exact_ops dyadic_blue dyadic_red
       = [Finite 0, Finite 1, Finite (17 / 8), Finite (- (33 / 32))]
   \<and> successes_fl exact_ops dyadic_blue dyadic_red = 2
   \<and> probability_fl exact_ops dyadic_blue dyadic_red = Finite (1 / 2)"
proof -
  have "(1 :: real) \<le> 2 ^ 500"
    by (rule one_le_power) simp
  then have i: "\<And>u v :: real. \<bar>u\<bar> \<le> 1 \<Longrightarrow> \<bar>v\<bar> \<le> 1 \<Longrightarrow> in_range (u, v)"
    unfolding in_range_def by (simp only: fst_conv snd_conv) linarith
  have r: "list_all in_range dyadic_blue" "list_all in_range dyadic_red"
    by (simp_all add: dyadic_blue_def dyadic_red_def i)
  have v: "a_vals_fl exact_ops dyadic_blue dyadic_red
             = [Finite 0, Finite 1, Finite (17 / 8), Finite (- (33 / 32))]"
    by (simp add: dyadic_blue_def dyadic_red_def a_vals_fl_Cons a_vals_fl_Nil exact_retained
          retained_iff exact_a_val a_formula_def power2_eq_square)
  have n: "retained_pairs_fl exact_ops dyadic_blue dyadic_red \<noteq> []"
    by (simp add: dyadic_blue_def dyadic_red_def retained_pairs_fl_Cons retained_pairs_fl_Nil
          exact_retained retained_iff)
  have l: "length (retained_pairs_fl exact_ops dyadic_blue dyadic_red) = 4"
    by (simp add: dyadic_blue_def dyadic_red_def retained_pairs_fl_Cons retained_pairs_fl_Nil
          exact_retained retained_iff)
  have s: "successes_fl exact_ops dyadic_blue dyadic_red = 2"
    by (simp add: successes_fl_def v)
  from pair_fraction_rounded [of dyadic_blue dyadic_red exact_ops] r n v s l float_arith_exact
  show ?thesis
    by (simp add: dyadic_blue_def dyadic_red_def exact_sel)
qed

end
